theory Spec2Isabelle
  imports Complex_Main
begin

section \<open>The simulation engine (src/client/game.tsx)\<close>

subsection \<open>Cells, directions and constants\<close>

text \<open>
  \<^verbatim>\<open>type Cell = { x: number; y: number }\<close> and \<^verbatim>\<open>type Direction = { x: number; y: number }\<close>
  are pairs \<open>(x, y)\<close> of integers: every coordinate the engine computes is a sum of integers.
\<close>

type_synonym cell = "int \<times> int"
type_synonym dir = "int \<times> int"

definition BOARD_SIZE :: int where
  "BOARD_SIZE = 20"

definition BASE_TICK_MS :: rat where
  "BASE_TICK_MS = 800"

definition MIN_TICK_MS :: rat where
  "MIN_TICK_MS = 150"

text \<open>
  \<^verbatim>\<open>Math.random()\<close> is the only source of nondeterminism of the engine. The model fixes
  the sequence \<open>rnd\<close> of the values it returns during a session (\<open>rnd i\<close> is the value of
  call number \<open>i\<close>, each one in \<open>[0, 1)\<close>), and the session state counts the calls made.
  \<^verbatim>\<open>randomInt(max)\<close> is \<^verbatim>\<open>Math.floor(Math.random() * max)\<close>.
\<close>

type_synonym rng = "nat \<Rightarrow> rat"

definition rng_ok :: "rng \<Rightarrow> bool" where
  "rng_ok rnd \<longleftrightarrow> (\<forall>i. 0 \<le> rnd i \<and> rnd i < 1)"

definition randomInt :: "rng \<Rightarrow> nat \<Rightarrow> int \<Rightarrow> int" where
  "randomInt rnd n mx = \<lfloor>rnd n * of_int mx\<rfloor>"

text \<open>\<^verbatim>\<open>randomColor\<close> returns \<^verbatim>\<open>hsl(${hue} 80% 50%)\<close>; the model keeps the hue.\<close>

definition randomColor :: "rng \<Rightarrow> nat \<Rightarrow> int \<times> nat" where
  "randomColor rnd n = (randomInt rnd n 360, Suc n)"

definition cellsEqual :: "cell \<Rightarrow> cell \<Rightarrow> bool" where
  "cellsEqual a b \<longleftrightarrow> fst a = fst b \<and> snd a = snd b"

subsection \<open>Food placement\<close>

text \<open>
  \<^verbatim>\<open>generateFood\<close>: the loop \<^verbatim>\<open>for (let i = 0; i < 100; i++)\<close> with its counter \<open>i\<close>;
  \<open>n\<close> is the number of \<^verbatim>\<open>Math.random()\<close> calls made so far. The result is the cell and
  the new number of calls.
\<close>

function generateFood_from :: "rng \<Rightarrow> cell list \<Rightarrow> nat \<Rightarrow> nat \<Rightarrow> cell \<times> nat" where
  "generateFood_from rnd body i n =
     (if i < 100 then
        (let candidate = (randomInt rnd n BOARD_SIZE, randomInt rnd (Suc n) BOARD_SIZE)
         in if \<not> list_ex (\<lambda>s. cellsEqual s candidate) body
            then (candidate, Suc (Suc n))
            else generateFood_from rnd body (Suc i) (Suc (Suc n)))
      else ((0, 0), n))"
  by pat_completeness auto
termination
  by (relation "measure (\<lambda>(rnd, body, i, n). 100 - i)") auto

declare generateFood_from.simps [simp del]

definition generateFood :: "rng \<Rightarrow> cell list \<Rightarrow> nat \<Rightarrow> cell \<times> nat" where
  "generateFood rnd body n = generateFood_from rnd body 0 n"

subsection \<open>The session state\<close>

text \<open>
  The \<^verbatim>\<open>useState\<close> slots of \<^verbatim>\<open>useSnakeGame\<close> that make up the game session, and
  \<open>draws\<close>, the number of \<^verbatim>\<open>Math.random()\<close> calls made. \<open>tickMs\<close> is a rational: the
  model multiplies exactly where the code multiplies doubles.
\<close>

record game =
  snake :: "cell list"
  direction :: dir
  nextDirection :: dir
  food :: cell
  snakeColor :: int
  score :: int
  gameOver :: bool
  isRunning :: bool
  tickMs :: rat
  draws :: nat

text \<open>The initial values of the \<^verbatim>\<open>useState\<close> calls, in the order the hook evaluates them.\<close>

definition initialGame :: "rng \<Rightarrow> game" where
  "initialGame rnd =
     (let (f, n1) = generateFood rnd [] 0;
          (hue, n2) = randomColor rnd n1
      in \<lparr> snake = [(BOARD_SIZE div 2, BOARD_SIZE div 2)],
           direction = (1, 0), nextDirection = (1, 0),
           food = f, snakeColor = hue, score = 0,
           gameOver = False, isRunning = False,
           tickMs = BASE_TICK_MS, draws = n2 \<rparr>)"

definition resetGame :: "rng \<Rightarrow> game \<Rightarrow> game" where
  "resetGame rnd g =
     (let center = BOARD_SIZE div 2;
          startCell = (center, center);
          (f, n1) = generateFood rnd [startCell] (draws g);
          (hue, n2) = randomColor rnd n1
      in g \<lparr> snake := [startCell],
             direction := (1, 0), nextDirection := (1, 0),
             food := f, snakeColor := hue, score := 0,
             gameOver := False, isRunning := True,
             tickMs := BASE_TICK_MS, draws := n2 \<rparr>)"

subsection \<open>Input\<close>

text \<open>The four \<^verbatim>\<open>if\<close>s of \<^verbatim>\<open>onKeyDown\<close> that map a key to a direction; a later one wins.\<close>

definition keyDirection :: "string \<Rightarrow> dir option" where
  "keyDirection k =
     (let nxt = None;
          nxt = (if k = ''ArrowUp'' \<or> k = ''w'' then Some (0, -1) else nxt);
          nxt = (if k = ''ArrowDown'' \<or> k = ''s'' then Some (0, 1) else nxt);
          nxt = (if k = ''ArrowLeft'' \<or> k = ''a'' then Some (-1, 0) else nxt);
          nxt = (if k = ''ArrowRight'' \<or> k = ''d'' then Some (1, 0) else nxt)
      in nxt)"

text \<open>The part of \<^verbatim>\<open>onKeyDown\<close> after a direction \<open>nxt\<close> has been read from the key.\<close>

definition steer :: "dir \<Rightarrow> game \<Rightarrow> game" where
  "steer nxt g =
     (if fst nxt = - fst (direction g) \<and> snd nxt = - snd (direction g) then g
      else g \<lparr> nextDirection := nxt \<rparr>)"

definition toggle :: "rng \<Rightarrow> game \<Rightarrow> game" where
  "toggle rnd g = (if gameOver g then resetGame rnd g else g \<lparr> isRunning := \<not> isRunning g \<rparr>)"

definition onKeyDown :: "rng \<Rightarrow> string \<Rightarrow> game \<Rightarrow> game" where
  "onKeyDown rnd k g =
     (if k = ''Shift'' then toggle rnd g
      else case keyDirection k of
             None \<Rightarrow> g
           | Some nxt \<Rightarrow> steer nxt g)"

subsection \<open>The tick\<close>

definition newHead :: "game \<Rightarrow> cell option" where
  "newHead g =
     (case snake g of
        [] \<Rightarrow> None
      | h # _ \<Rightarrow> Some (fst h + fst (nextDirection g), snd h + snd (nextDirection g)))"

definition outOfBoard :: "cell \<Rightarrow> bool" where
  "outOfBoard c \<longleftrightarrow> fst c < 0 \<or> snd c < 0 \<or> fst c \<ge> BOARD_SIZE \<or> snd c \<ge> BOARD_SIZE"

definition faster :: "rat \<Rightarrow> rat" where
  "faster prev = (let nxt = prev * (9 / 10) in if nxt < MIN_TICK_MS then MIN_TICK_MS else nxt)"

text \<open>
  The callback of \<^verbatim>\<open>window.setInterval\<close>: \<^verbatim>\<open>setDirection(nextDirection)\<close>, then the
  updater given to \<^verbatim>\<open>setSnake\<close> with the state changes it makes on the way.
\<close>

definition tick :: "rng \<Rightarrow> game \<Rightarrow> game" where
  "tick rnd g =
     (let g1 = g \<lparr> direction := nextDirection g \<rparr>;
          current = snake g
      in case current of
           [] \<Rightarrow> g1
         | h # _ \<Rightarrow>
             (let nh = (fst h + fst (nextDirection g), snd h + snd (nextDirection g))
              in if fst nh < 0 \<or> snd nh < 0 \<or> fst nh \<ge> BOARD_SIZE \<or> snd nh \<ge> BOARD_SIZE
                 then g1 \<lparr> gameOver := True, isRunning := False \<rparr>
                 else if list_ex (\<lambda>segment. cellsEqual segment nh) current
                 then g1 \<lparr> gameOver := True, isRunning := False \<rparr>
                 else if cellsEqual nh (food g)
                 then (let grown = nh # current;
                           (hue, n1) = randomColor rnd (draws g);
                           (f, n2) = generateFood rnd grown n1
                       in g1 \<lparr> snake := grown, score := score g + 1,
                               tickMs := faster (tickMs g),
                               snakeColor := hue, food := f, draws := n2 \<rparr>)
                 else g1 \<lparr> snake := nh # butlast current \<rparr>))"

subsection \<open>Events\<close>

text \<open>
  What can happen to a session: a key press, a period of the timer, and a click on one of
  the two buttons. The timer exists only while \<^verbatim>\<open>isRunning && !gameOver\<close> (the guard of
  the effect that installs it); the ``Play again'' button is rendered only when the game
  is over.
\<close>

datatype event = Key string | Tick | PlayAgain | StartPause

definition running :: "game \<Rightarrow> bool" where
  "running g \<longleftrightarrow> isRunning g \<and> \<not> gameOver g"

fun step :: "rng \<Rightarrow> game \<Rightarrow> event \<Rightarrow> game" where
  "step rnd g (Key k) = onKeyDown rnd k g"
| "step rnd g Tick = (if running g then tick rnd g else g)"
| "step rnd g PlayAgain = (if gameOver g then resetGame rnd g else g)"
| "step rnd g StartPause = toggle rnd g"

definition run :: "rng \<Rightarrow> event list \<Rightarrow> game" where
  "run rnd evs = foldl (step rnd) (initialGame rnd) evs"

text \<open>
  Attempt number \<open>k\<close> of \<^verbatim>\<open>generateFood\<close>, when \<open>n\<close> calls of \<^verbatim>\<open>Math.random()\<close> have been
  made before the loop starts: each attempt makes two calls.
\<close>

definition foodCandidate :: "rng \<Rightarrow> nat \<Rightarrow> nat \<Rightarrow> cell" where
  "foodCandidate rnd n k =
     (randomInt rnd (n + 2 * k) BOARD_SIZE, randomInt rnd (Suc (n + 2 * k)) BOARD_SIZE)"

section \<open>The scoreboard service\<close>

subsection \<open>Numbers and their text\<close>

text \<open>
  A JavaScript number: the three values that are not finite, and the finite ones. The
  scores of the game are integers, and the model keeps to integer values, with exact
  arithmetic.
\<close>

datatype jsnum = NaN | PosInf | NegInf | Fin int

text \<open>\<^verbatim>\<open>Number.isFinite\<close>, \<^verbatim>\<open><\<close> and \<^verbatim>\<open>>\<close>.\<close>

fun isFinite :: "jsnum \<Rightarrow> bool" where
  "isFinite (Fin _) = True"
| "isFinite _ = False"

fun js_less :: "jsnum \<Rightarrow> jsnum \<Rightarrow> bool" where
  "js_less NaN _ = False"
| "js_less _ NaN = False"
| "js_less (Fin a) (Fin b) = (a < b)"
| "js_less (Fin _) PosInf = True"
| "js_less NegInf (Fin _) = True"
| "js_less NegInf PosInf = True"
| "js_less _ _ = False"

definition js_greater :: "jsnum \<Rightarrow> jsnum \<Rightarrow> bool" where
  "js_greater a b = js_less b a"

text \<open>The decimal digits of a non-negative integer.\<close>

definition digitChar :: "nat \<Rightarrow> char" where
  "digitChar d = char_of (48 + d)"

function decimal :: "int \<Rightarrow> string" where
  "decimal n = (if n < 10 then [digitChar (nat n)]
                else decimal (n div 10) @ [digitChar (nat (n mod 10))])"
  by pat_completeness auto
termination
  by (relation "measure nat") auto

declare decimal.simps [simp del]

text \<open>
  \<^verbatim>\<open>String(n)\<close> (Number::toString of ECMAScript, radix 10) for an integer value: the
  decimal digits below \<open>10\<^sup>2\<^sup>1\<close>, and from there on the significant digits with an exponent,
  as in \<^verbatim>\<open>1e+21\<close> and \<^verbatim>\<open>1.5e+21\<close>.
\<close>

definition magnitudeToString :: "int \<Rightarrow> string" where
  "magnitudeToString m =
     (let ds = decimal m
      in if m < 10 ^ 21 then ds
         else (let sig = rev (dropWhile (\<lambda>c. c = CHR ''0'') (rev ds))
               in (if length sig = 1 then sig else hd sig # CHR ''.'' # tl sig)
                  @ ''e+'' @ decimal (int (length ds) - 1)))"

fun numToString :: "jsnum \<Rightarrow> string" where
  "numToString NaN = ''NaN''"
| "numToString PosInf = ''Infinity''"
| "numToString NegInf = ''-Infinity''"
| "numToString (Fin i) = (if i < 0 then ''-'' else '''') @ magnitudeToString \<bar>i\<bar>"

text \<open>
  \<^verbatim>\<open>parseInt(string)\<close> with no radix: leading white space is skipped, then a sign, then
  \<^verbatim>\<open>0x\<close> or \<^verbatim>\<open>0X\<close> selects radix 16; the value is that of the longest prefix of digits of
  the radix, and \<^verbatim>\<open>NaN\<close> when there is no digit.
\<close>

definition isWhiteSpace :: "char \<Rightarrow> bool" where
  "isWhiteSpace c \<longleftrightarrow> (of_char c :: nat) \<in> {9, 10, 11, 12, 13, 32, 160}"

definition digitValue :: "char \<Rightarrow> nat option" where
  "digitValue c =
     (let k = (of_char c :: nat)
      in if 48 \<le> k \<and> k \<le> 57 then Some (k - 48)
         else if 97 \<le> k \<and> k \<le> 102 then Some (k - 87)
         else if 65 \<le> k \<and> k \<le> 70 then Some (k - 55)
         else None)"

definition radixDigit :: "nat \<Rightarrow> char \<Rightarrow> nat option" where
  "radixDigit R c = (case digitValue c of Some d \<Rightarrow> if d < R then Some d else None | None \<Rightarrow> None)"

definition radixValue :: "nat \<Rightarrow> string \<Rightarrow> int" where
  "radixValue R z =
     foldl (\<lambda>a c. a * int R + (case radixDigit R c of Some d \<Rightarrow> int d | None \<Rightarrow> 0)) 0 z"

definition parseInt :: "string \<Rightarrow> jsnum" where
  "parseInt str =
     (let s = dropWhile isWhiteSpace str;
          (sign, s) = (case s of
                         [] \<Rightarrow> (1, s)
                       | c # cs \<Rightarrow> if c = CHR ''-'' then (- 1, cs)
                                  else if c = CHR ''+'' then (1, cs) else (1, s));
          (R, s) = (if take 2 s = ''0x'' \<or> take 2 s = ''0X'' then (16, drop 2 s) else (10, s));
          z = takeWhile (\<lambda>c. radixDigit R c \<noteq> None) s
      in if z = [] then NaN else Fin (sign * radixValue R z))"

text \<open>\<^verbatim>\<open>String.prototype.trim\<close>.\<close>

definition trim :: "string \<Rightarrow> string" where
  "trim s = rev (dropWhile isWhiteSpace (rev (dropWhile isWhiteSpace s)))"

subsection \<open>JSON values and comments\<close>

datatype json = JNull | JBool bool | JNum int | JStr string | JArr "json list"
  | JObj "(string \<times> json) list"

text \<open>\<^verbatim>\<open>SnakeComment\<close> of shared/api, and the JSON value \<^verbatim>\<open>JSON.stringify\<close> writes for it.\<close>

record snakeComment =
  comment_id :: string
  username :: string
  comment_score :: jsnum
  comment_message :: string
  createdAt :: string

definition commentJson :: "snakeComment \<Rightarrow> json" where
  "commentJson c =
     JObj [(''id'', JStr (comment_id c)), (''username'', JStr (username c)),
           (''score'', (case comment_score c of Fin n \<Rightarrow> JNum n | _ \<Rightarrow> JNull)),
           (''message'', JStr (comment_message c)), (''createdAt'', JStr (createdAt c))]"

subsection \<open>The store\<close>

text \<open>
  Redis maps keys to strings. The routes read the high-score slot with \<^verbatim>\<open>parseInt\<close> and the
  comments slot with \<^verbatim>\<open>JSON.parse\<close>, and write the latter with \<^verbatim>\<open>JSON.stringify\<close>. The model
  keeps the text of a slot in \<open>texts\<close>, and for a slot that holds JSON text it keeps in
  \<open>docs\<close> what \<^verbatim>\<open>JSON.parse\<close> makes of the text: \<open>Some v\<close> for the value \<open>v\<close>, \<open>None\<close> when
  \<^verbatim>\<open>JSON.parse\<close> throws (the empty text included). \<open>accessLog\<close> lists the accesses made to the store,
  the oldest first.
\<close>

datatype access = Get string | Set string

record redis =
  texts :: "string \<rightharpoonup> string"
  docs :: "string \<rightharpoonup> json option"
  accessLog :: "access list"

text \<open>A thrown value: an \<^verbatim>\<open>Error\<close> with its message, or something that is not an \<^verbatim>\<open>Error\<close>.\<close>

datatype thrown = Error string | NotAnError

text \<open>
  The body of a score request, as the route uses it. \<^verbatim>\<open>c.req.json()\<close> throws, or gives the
  JSON value of the body: \<open>None\<close> stands for \<^verbatim>\<open>null\<close>, of which no property can be read, and
  \<open>Some b\<close> for any other value. \<open>body_score b\<close> is the outcome of evaluating
  \<^verbatim>\<open>Number(body.score)\<close>: a number (\<^verbatim>\<open>NaN\<close> for a missing score or a text that is not a
  numeral), or the \<^verbatim>\<open>TypeError\<close> that the conversion throws for an object that has no
  primitive value, such as \<^verbatim>\<open>{"toString": 1}\<close>. \<open>body_message b\<close> is the message when
  \<^verbatim>\<open>typeof body.message\<close> is \<^verbatim>\<open>'string'\<close>.
\<close>

record body =
  body_score :: "thrown + jsnum"
  body_message :: "string option"

text \<open>
  What a request brings with it, and what its environment answers while it is handled:
  \<^verbatim>\<open>context.postId\<close>; the result of \<^verbatim>\<open>c.req.json()\<close>; the result of
  \<^verbatim>\<open>reddit.getCurrentUsername()\<close>; the store accesses that throw; \<^verbatim>\<open>Date.now()\<close>,
  \<^verbatim>\<open>Math.random().toString(16).slice(2)\<close> and \<^verbatim>\<open>new Date().toISOString()\<close>.
\<close>

record request =
  postId :: "string option"
  json_body :: "thrown + body option"
  currentUsername :: "thrown + string option"
  fault :: "access \<Rightarrow> thrown option"
  dateNow :: int
  randomHex :: string
  isoNow :: string

definition redis_get :: "request \<Rightarrow> redis \<Rightarrow> string \<Rightarrow> (thrown + string option) \<times> redis" where
  "redis_get rq r k =
     ((case fault rq (Get k) of Some e \<Rightarrow> Inl e | None \<Rightarrow> Inr (texts r k)),
      r \<lparr> accessLog := accessLog r @ [Get k] \<rparr>)"

definition redis_get_json :: "request \<Rightarrow> redis \<Rightarrow> string \<Rightarrow> (thrown + json option option) \<times> redis" where
  "redis_get_json rq r k =
     ((case fault rq (Get k) of Some e \<Rightarrow> Inl e | None \<Rightarrow> Inr (docs r k)),
      r \<lparr> accessLog := accessLog r @ [Get k] \<rparr>)"

definition redis_set :: "request \<Rightarrow> redis \<Rightarrow> string \<Rightarrow> string \<Rightarrow> (thrown + unit) \<times> redis" where
  "redis_set rq r k v =
     (case fault rq (Set k) of
        Some e \<Rightarrow> (Inl e, r \<lparr> accessLog := accessLog r @ [Set k] \<rparr>)
      | None \<Rightarrow> (Inr (), r \<lparr> texts := (texts r)(k \<mapsto> v), accessLog := accessLog r @ [Set k] \<rparr>))"

definition redis_set_json :: "request \<Rightarrow> redis \<Rightarrow> string \<Rightarrow> json \<Rightarrow> (thrown + unit) \<times> redis" where
  "redis_set_json rq r k v =
     (case fault rq (Set k) of
        Some e \<Rightarrow> (Inl e, r \<lparr> accessLog := accessLog r @ [Set k] \<rparr>)
      | None \<Rightarrow> (Inr (), r \<lparr> docs := (docs r)(k \<mapsto> Some v), accessLog := accessLog r @ [Set k] \<rparr>))"

subsection \<open>Responses\<close>

text \<open>
  The JSON answers of the routes, and the plain text with which the framework answers when
  an exception leaves a handler.
\<close>

datatype payload =
    ErrorResponse string
  | SnakeInitResponse string string jsnum "json list"
  | SnakeScoreResponse string jsnum bool "snakeComment option"
  | PlainText string

datatype response = Response nat payload

text \<open>
  An exception that no \<^verbatim>\<open>catch\<close> of the route takes: the framework answers with status 500
  and the text \<^verbatim>\<open>Internal Server Error\<close>.
\<close>

definition uncaught :: "thrown \<Rightarrow> response" where
  "uncaught err = Response 500 (PlainText ''Internal Server Error'')"

definition snakeKeysForPost :: "string \<Rightarrow> string \<times> string" where
  "snakeKeysForPost pid =
     (let base = ''snake:'' @ pid in (base @ '':highscore'', base @ '':comments''))"

text \<open>
  The two expressions both routes use on what they read:
  \<^verbatim>\<open>rawHighScore ? parseInt(rawHighScore) : 0\<close>, and the comments that stay \<^verbatim>\<open>[]\<close> unless
  the slot is there, parses, and parses to an array.
\<close>

definition readHighScore :: "string option \<Rightarrow> jsnum" where
  "readHighScore rawHighScore =
     (case rawHighScore of
        None \<Rightarrow> Fin 0
      | Some s \<Rightarrow> if s = [] then Fin 0 else parseInt s)"

definition readComments :: "json option option \<Rightarrow> json list" where
  "readComments rawComments =
     (case rawComments of
        None \<Rightarrow> []
      | Some None \<Rightarrow> []
      | Some (Some (JArr parsed)) \<Rightarrow> parsed
      | Some (Some _) \<Rightarrow> [])"



subsection \<open>The routes\<close>

definition falsy :: "string option \<Rightarrow> bool" where
  "falsy v \<longleftrightarrow> (case v of None \<Rightarrow> True | Some s \<Rightarrow> s = [])"

definition initCatch :: "thrown \<Rightarrow> response" where
  "initCatch err =
     (let errorMessage = ''Unknown error during snake initialization'';
          errorMessage = (case err of
                            Error m \<Rightarrow> ''Snake initialization failed: '' @ m
                          | NotAnError \<Rightarrow> errorMessage)
      in Response 400 (ErrorResponse errorMessage))"

text \<open>
  \<^verbatim>\<open>api.get('/snake/init')\<close>. \<^verbatim>\<open>Promise.all\<close> starts the two reads and the user lookup, and
  throws what the first of them that fails has thrown.
\<close>

definition snakeInit :: "request \<Rightarrow> redis \<Rightarrow> response \<times> redis" where
  "snakeInit rq r =
     (if falsy (postId rq)
      then (Response 400 (ErrorResponse ''postId is required but missing from context''), r)
      else
        (let pid = the (postId rq);
             (scoreKey, commentsKey) = snakeKeysForPost pid;
             (rawHighScore, r) = redis_get rq r scoreKey;
             (rawComments, r) = redis_get_json rq r commentsKey
         in case rawHighScore of Inl err \<Rightarrow> (initCatch err, r) | Inr rawHighScore \<Rightarrow>
            (case rawComments of Inl err \<Rightarrow> (initCatch err, r) | Inr rawComments \<Rightarrow>
            (case currentUsername rq of Inl err \<Rightarrow> (initCatch err, r) | Inr uname \<Rightarrow>
               (let highScore = readHighScore rawHighScore;
                    comments = readComments rawComments
                in (Response 200
                      (SnakeInitResponse pid
                         (case uname of None \<Rightarrow> ''anonymous'' | Some u \<Rightarrow> u)
                         highScore comments), r))))))"

definition scoreCatch :: "thrown \<Rightarrow> response" where
  "scoreCatch err =
     (let errorMessage = ''Unknown error while saving score'';
          errorMessage = (case err of
                            Error m \<Rightarrow> ''Saving score failed: '' @ m
                          | NotAnError \<Rightarrow> errorMessage)
      in Response 400 (ErrorResponse errorMessage))"

text \<open>The comment that the score route builds for a request with a message.\<close>

definition newComment :: "request \<Rightarrow> jsnum \<Rightarrow> string option \<Rightarrow> string \<Rightarrow> snakeComment" where
  "newComment rq sc uname trimmedMessage =
     \<lparr> comment_id = numToString (Fin (dateNow rq)) @ ''-'' @ randomHex rq,
       username = (case uname of None \<Rightarrow> ''anonymous'' | Some u \<Rightarrow> u),
       comment_score = sc,
       comment_message = take 280 trimmedMessage,
       createdAt = isoNow rq \<rparr>"

text \<open>The \<^verbatim>\<open>try\<close> block of \<^verbatim>\<open>api.post('/snake/score')\<close>, entered with a valid score \<open>sc\<close>.\<close>

definition saveScore :: "request \<Rightarrow> redis \<Rightarrow> string \<Rightarrow> body \<Rightarrow> jsnum \<Rightarrow> response \<times> redis" where
  "saveScore rq r pid b sc =
     (let (scoreKey, commentsKey) = snakeKeysForPost pid;
          (rawHighScore, r) = redis_get rq r scoreKey;
          (rawComments, r) = redis_get_json rq r commentsKey
      in case rawHighScore of Inl err \<Rightarrow> (scoreCatch err, r) | Inr rawHighScore \<Rightarrow>
         (case rawComments of Inl err \<Rightarrow> (scoreCatch err, r) | Inr rawComments \<Rightarrow>
         (case currentUsername rq of Inl err \<Rightarrow> (scoreCatch err, r) | Inr uname \<Rightarrow>
            (let currentHigh = readHighScore rawHighScore;
                 newBest = js_greater sc currentHigh;
                 highScore = (if newBest then sc else currentHigh);
                 (saved, r) = (if newBest then redis_set rq r scoreKey (numToString highScore)
                               else (Inr (), r))
             in case saved of Inl err \<Rightarrow> (scoreCatch err, r) | Inr _ \<Rightarrow>
                (let comments = readComments rawComments;
                     trimmedMessage = (case body_message b of Some m \<Rightarrow> trim m | None \<Rightarrow> [])
                 in if trimmedMessage \<noteq> []
                    then
                      (let c = newComment rq sc uname trimmedMessage;
                           comments = comments @ [commentJson c];
                           comments = (if length comments > 20
                                       then drop (length comments - 20) comments
                                       else comments);
                           (saved, r) = redis_set_json rq r commentsKey (JArr comments)
                       in case saved of Inl err \<Rightarrow> (scoreCatch err, r) | Inr _ \<Rightarrow>
                            (Response 200 (SnakeScoreResponse pid highScore newBest (Some c)), r))
                    else (Response 200 (SnakeScoreResponse pid highScore newBest None), r))))))"

text \<open>
  \<^verbatim>\<open>api.post('/snake/score')\<close>. The statement \<^verbatim>\<open>const score = Number(body.score)\<close> is
  outside the \<^verbatim>\<open>try\<close> blocks of the route: what it throws leaves the handler.
\<close>

definition snakeScore :: "request \<Rightarrow> redis \<Rightarrow> response \<times> redis" where
  "snakeScore rq r =
     (if falsy (postId rq)
      then (Response 400 (ErrorResponse ''postId is required''), r)
      else case json_body rq of
             Inl err \<Rightarrow> (Response 400 (ErrorResponse ''Invalid request body''), r)
           | Inr None \<Rightarrow> (uncaught (Error ''Cannot read properties of null''), r)
           | Inr (Some b) \<Rightarrow>
               (case body_score b of
                  Inl err \<Rightarrow> (uncaught err, r)
                | Inr sc \<Rightarrow>
                    if \<not> isFinite sc \<or> js_less sc (Fin 0)
                    then (Response 400 (ErrorResponse ''Score must be a non-negative number''), r)
                    else saveScore rq r (the (postId rq)) b sc))"

text \<open>The high score and the comment log that the routes find in the store for a post.\<close>

definition storedHighScore :: "redis \<Rightarrow> string \<Rightarrow> jsnum" where
  "storedHighScore r pid = readHighScore (texts r (fst (snakeKeysForPost pid)))"

definition storedComments :: "redis \<Rightarrow> string \<Rightarrow> json list" where
  "storedComments r pid = readComments (docs r (snd (snakeKeysForPost pid)))"

text \<open>Requests handled one after the other.\<close>

fun submitAll :: "request list \<Rightarrow> redis \<Rightarrow> redis" where
  "submitAll [] r = r"
| "submitAll (rq # rqs) r = submitAll rqs (snd (snakeScore rq r))"

subsection \<open>Requests that reach the store\<close>

text \<open>
  The accesses to the store that were made between two of its states; a request for post
  \<open>pid\<close> that passes the checks of the score route and during which nothing throws; the
  message of a request after \<^verbatim>\<open>trim\<close>, and the comment the score route builds from it.
\<close>

definition performed :: "redis \<Rightarrow> redis \<Rightarrow> access list" where
  "performed r r' = drop (length (accessLog r)) (accessLog r')"

definition succeeds :: "string \<Rightarrow> request \<Rightarrow> bool" where
  "succeeds pid rq \<longleftrightarrow>
     postId rq = Some pid \<and> pid \<noteq> []
     \<and> (case json_body rq of
          Inr (Some b) \<Rightarrow>
            (case body_score b of
               Inr sc \<Rightarrow> isFinite sc \<and> \<not> js_less sc (Fin 0)
             | Inl _ \<Rightarrow> False)
        | _ \<Rightarrow> False)
     \<and> (case currentUsername rq of Inr _ \<Rightarrow> True | Inl _ \<Rightarrow> False)
     \<and> fault rq (Get (fst (snakeKeysForPost pid))) = None
     \<and> fault rq (Get (snd (snakeKeysForPost pid))) = None
     \<and> fault rq (Set (fst (snakeKeysForPost pid))) = None
     \<and> fault rq (Set (snd (snakeKeysForPost pid))) = None"

definition trimmedMessage :: "request \<Rightarrow> string" where
  "trimmedMessage rq =
     (case json_body rq of
        Inr (Some b) \<Rightarrow> (case body_message b of Some m \<Rightarrow> trim m | None \<Rightarrow> [])
      | _ \<Rightarrow> [])"

definition scoreOf :: "request \<Rightarrow> jsnum" where
  "scoreOf rq =
     (case json_body rq of
        Inr (Some b) \<Rightarrow> (case body_score b of Inr sc \<Rightarrow> sc | Inl _ \<Rightarrow> NaN)
      | _ \<Rightarrow> NaN)"

definition commentOf :: "request \<Rightarrow> snakeComment" where
  "commentOf rq =
     newComment rq (scoreOf rq)
       (case currentUsername rq of Inr u \<Rightarrow> u | Inl _ \<Rightarrow> None) (trimmedMessage rq)"

definition lastN :: "nat \<Rightarrow> 'a list \<Rightarrow> 'a list" where
  "lastN n xs = drop (length xs - n) xs"

definition isDigit :: "char \<Rightarrow> bool" where
  "isDigit c \<longleftrightarrow> (\<exists>d<10. c = digitChar d)"

section \<open>Sample sessions and requests\<close>

text \<open>
  Sessions: a snake in front of the right wall; a snake of four cells about to turn into its
  own tail; a session heading right with a buffered turn.
\<close>

definition wallGame :: game where
  "wallGame = \<lparr> snake = [(19, 0)], direction = (1, 0), nextDirection = (1, 0),
      food = (5, 5), snakeColor = 0, score = 0, gameOver = False, isRunning = True,
      tickMs = 800, draws = 3 \<rparr>"

definition loopGame :: game where
  "loopGame = \<lparr> snake = [(5, 6), (5, 5), (6, 5), (6, 6)], direction = (0, 1),
      nextDirection = (1, 0), food = (2, 2), snakeColor = 0, score = 3, gameOver = False,
      isRunning = True, tickMs = 800, draws = 12 \<rparr>"

definition eastGame :: game where
  "eastGame = \<lparr> snake = [(10, 10)], direction = (1, 0), nextDirection = (0, 1),
      food = (5, 5), snakeColor = 0, score = 0, gameOver = False, isRunning = True,
      tickMs = 800, draws = 3 \<rparr>"

text \<open>
  A sequence of \<^verbatim>\<open>Math.random()\<close> values and a sequence of events played from the initial
  state. The first food appears at \<open>(11, 10)\<close>, the second at \<open>(1, 1)\<close>, the third at \<open>(1, 0)\<close>;
  from then on every value is \<open>0\<close>, so that every candidate is \<open>(0, 0)\<close>. The snake eats the
  first food, goes up to row \<open>0\<close>, left to \<open>(0, 0)\<close>, down to \<open>(0, 1)\<close>, right to \<open>(1, 1)\<close> where it
  eats, and up to \<open>(1, 0)\<close> where it eats again: it then is \<open>[(1, 0), (1, 1), (0, 1), (0, 0)]\<close>,
  the hundred attempts to place the food all hit its tail, and the food falls back to
  \<open>(0, 0)\<close>. The last event turns the snake left, towards that cell.
\<close>

definition rnd0 :: rng where
  "rnd0 i = (if i = 0 then 11 / 20 else if i = 1 then 1 / 2
             else if i = 4 \<or> i = 5 \<or> i = 7 then 1 / 20 else 0)"

definition evs0 :: "event list" where
  "evs0 = [StartPause, Tick, Key ''ArrowUp''] @ replicate 10 Tick
          @ [Key ''ArrowLeft''] @ replicate 11 Tick
          @ [Key ''ArrowDown'', Tick, Key ''ArrowRight'', Tick, Key ''ArrowUp'', Tick,
             Key ''ArrowLeft'']"

text \<open>The events of \<open>evs0\<close> up to the turn towards the third food at \<open>(1, 0)\<close>.\<close>

definition evsCorner :: "event list" where
  "evsCorner = [StartPause, Tick, Key ''ArrowUp''] @ replicate 10 Tick
          @ [Key ''ArrowLeft''] @ replicate 11 Tick
          @ [Key ''ArrowDown'', Tick, Key ''ArrowRight'', Tick, Key ''ArrowUp'']"

text \<open>
  Requests of user \<open>ann\<close> on post \<open>t3_abc\<close> during which nothing fails, stores for that post, a
  request during which the first read of the store throws, twenty-one requests with a
  message each, a request whose body is \<^verbatim>\<open>null\<close>, and a request with the body
  \<^verbatim>\<open>{"score": {"toString": 1}}\<close>, whose score has no primitive value.
\<close>

definition testRequest :: "jsnum \<Rightarrow> string option \<Rightarrow> request" where
  "testRequest sc m = \<lparr> postId = Some ''t3_abc'',
     json_body = Inr (Some \<lparr> body_score = Inr sc, body_message = m \<rparr>),
     currentUsername = Inr (Some ''ann''), fault = (\<lambda>_. None), dateNow = 1700000000000,
     randomHex = ''8f3a'', isoNow = ''2026-01-01T00:00:00.000Z'' \<rparr>"

definition testStore :: redis where
  "testStore = \<lparr> texts = [''snake:t3_abc:highscore'' \<mapsto> ''5''], docs = Map.empty, accessLog = [] \<rparr>"

definition malformedStore :: redis where
  "malformedStore = \<lparr> texts = Map.empty, docs = [''snake:t3_abc:comments'' \<mapsto> None],
     accessLog = [] \<rparr>"

definition brokenRequest :: request where
  "brokenRequest = (testRequest (Fin 7) None)
     \<lparr> fault := (\<lambda>a. if a = Get ''snake:t3_abc:highscore'' then Some (Error ''ECONNRESET'')
                      else None) \<rparr>"

definition highStore :: "string \<Rightarrow> redis" where
  "highStore raw = \<lparr> texts = [''snake:t3_abc:highscore'' \<mapsto> raw], docs = Map.empty, accessLog = [] \<rparr>"

definition chatRequests :: "request list" where
  "chatRequests = map (\<lambda>n. testRequest (Fin (int n)) (Some '' gg '')) [0..<21]"

definition nullBodyRequest :: request where
  "nullBodyRequest = (testRequest NaN None) \<lparr> json_body := Inr None \<rparr>"

definition unconvertibleRequest :: request where
  "unconvertibleRequest = (testRequest NaN None)
     \<lparr> json_body := Inr (Some \<lparr> body_score = Inl (Error ''Cannot convert object to primitive value''),
                                  body_message = None \<rparr>) \<rparr>"

section \<open>Properties of the simulation engine\<close>

lemma cellsEqual_eq: "cellsEqual a b \<longleftrightarrow> a = b"
  by (simp add: cellsEqual_def prod_eq_iff)

lemma list_ex_cellsEqual: "list_ex (\<lambda>s. cellsEqual s c) xs \<longleftrightarrow> c \<in> set xs"
  by (auto simp: list_ex_iff cellsEqual_eq)

lemma tick_Cons:
  assumes "snake g = h # t"
  shows "tick rnd g =
     (let nh = (fst h + fst (nextDirection g), snd h + snd (nextDirection g)) in
      if outOfBoard nh \<or> nh \<in> set (snake g)
      then g \<lparr> direction := nextDirection g, gameOver := True, isRunning := False \<rparr>
      else if nh = food g
      then g \<lparr> direction := nextDirection g, snake := nh # snake g,
            score := score g + 1, tickMs := faster (tickMs g),
            snakeColor := fst (randomColor rnd (draws g)),
            food := fst (generateFood rnd (nh # snake g) (Suc (draws g))),
            draws := snd (generateFood rnd (nh # snake g) (Suc (draws g))) \<rparr>
      else g \<lparr> direction := nextDirection g, snake := nh # butlast (snake g) \<rparr>)"
  by (auto simp: tick_def Let_def assms list_ex_iff cellsEqual_eq outOfBoard_def
        randomColor_def split_beta simp del: butlast.simps)

lemma tick_collision:
  assumes "newHead g = Some nh" and "outOfBoard nh \<or> nh \<in> set (snake g)"
  shows "tick rnd g = g \<lparr> direction := nextDirection g, gameOver := True, isRunning := False \<rparr>"
proof -
  from assms(1) obtain h t where s: "snake g = h # t"
    and nh: "nh = (fst h + fst (nextDirection g), snd h + snd (nextDirection g))"
    by (auto simp: newHead_def split: list.splits)
  from assms(2) show ?thesis
    unfolding tick_Cons [OF s] Let_def nh [symmetric] by simp
qed

lemma tick_grow:
  assumes "newHead g = Some nh" and "\<not> outOfBoard nh" and "nh \<notin> set (snake g)"
    and "nh = food g"
  shows "tick rnd g = g \<lparr> direction := nextDirection g, snake := nh # snake g,
            score := score g + 1, tickMs := faster (tickMs g),
            snakeColor := fst (randomColor rnd (draws g)),
            food := fst (generateFood rnd (nh # snake g) (Suc (draws g))),
            draws := snd (generateFood rnd (nh # snake g) (Suc (draws g))) \<rparr>"
proof -
  from assms(1) obtain h t where s: "snake g = h # t"
    and nh: "nh = (fst h + fst (nextDirection g), snd h + snd (nextDirection g))"
    by (auto simp: newHead_def split: list.splits)
  from assms(2-4) show ?thesis
    unfolding tick_Cons [OF s] Let_def nh [symmetric] by simp
qed

lemma tick_move:
  assumes "newHead g = Some nh" and "\<not> outOfBoard nh" and "nh \<notin> set (snake g)"
    and "nh \<noteq> food g"
  shows "tick rnd g = g \<lparr> direction := nextDirection g, snake := nh # butlast (snake g) \<rparr>"
proof -
  from assms(1) obtain h t where s: "snake g = h # t"
    and nh: "nh = (fst h + fst (nextDirection g), snd h + snd (nextDirection g))"
    by (auto simp: newHead_def split: list.splits)
  from assms(2-4) show ?thesis
    unfolding tick_Cons [OF s] Let_def nh [symmetric] by simp
qed

lemma newHead_None: "newHead g = None \<longleftrightarrow> snake g = []"
  by (simp add: newHead_def split: list.splits)


lemma inBoard_iff:
  "\<not> outOfBoard c \<longleftrightarrow> 0 \<le> fst c \<and> fst c < 20 \<and> 0 \<le> snd c \<and> snd c < 20"
  by (auto simp: outOfBoard_def BOARD_SIZE_def)

subsection \<open>Fatal collisions\<close>

text \<open>
  Claim C2. A tick taken while the session is running, whose new head (the head plus the
  direction committed by this tick) is outside \<open>[0, 20)\<close> on an axis or is a cell of the
  snake, ends the game: \<open>gameOver\<close> is set, \<open>isRunning\<close> is cleared, and the snake is the one
  from before the tick.
\<close>

theorem tick_collision_game_over:
  assumes "running g"
    and "newHead g = Some nh"
    and "fst nh < 0 \<or> 20 \<le> fst nh \<or> snd nh < 0 \<or> 20 \<le> snd nh \<or> nh \<in> set (snake g)"
  shows "gameOver (step rnd g Tick) \<and> \<not> isRunning (step rnd g Tick)
         \<and> snake (step rnd g Tick) = snake g
         \<and> direction (step rnd g Tick) = nextDirection g"
proof -
  from assms(3) have "outOfBoard nh \<or> nh \<in> set (snake g)"
    using inBoard_iff [of nh] by auto
  with assms(2) have "tick rnd g
      = g \<lparr> direction := nextDirection g, gameOver := True, isRunning := False \<rparr>"
    by (rule tick_collision)
  with assms(1) show ?thesis by simp
qed

theorem tick_collision_game_over_witness:
  "running wallGame \<and> newHead wallGame = Some (20, 0)
   \<and> gameOver (step (\<lambda>_. 0) wallGame Tick) \<and> \<not> isRunning (step (\<lambda>_. 0) wallGame Tick)
   \<and> snake (step (\<lambda>_. 0) wallGame Tick) = [(19, 0)]"
proof -
  have r: "running wallGame" by (simp add: running_def wallGame_def)
  have h: "newHead wallGame = Some (20, 0)" by (simp add: newHead_def wallGame_def)
  have "snake wallGame = [(19, 0)]" by (simp add: wallGame_def)
  with r h tick_collision_game_over [OF r h, of "\<lambda>_. 0"] show ?thesis by simp
qed

text \<open>
  Claim C10. With a snake of at least two cells, a tick taken while running whose new head
  is the cell of the tail (the last element), that cell not being the food cell, ends the
  game: the collision test looks at the snake as it is before the move, tail included.
\<close>

theorem tick_into_tail_game_over:
  assumes "running g"
    and "2 \<le> length (snake g)"
    and "newHead g = Some nh"
    and "nh = last (snake g)"
    and "nh \<noteq> food g"
  shows "gameOver (step rnd g Tick) \<and> \<not> isRunning (step rnd g Tick)"
proof -
  from assms(2) have "snake g \<noteq> []" by auto
  with assms(4) have "nh \<in> set (snake g)" by simp
  then have "outOfBoard nh \<or> nh \<in> set (snake g)" ..
  with assms(3) have "tick rnd g
      = g \<lparr> direction := nextDirection g, gameOver := True, isRunning := False \<rparr>"
    by (rule tick_collision)
  with assms(1) show ?thesis by simp
qed

theorem tick_into_tail_game_over_witness:
  "running loopGame \<and> 2 \<le> length (snake loopGame) \<and> newHead loopGame = Some (6, 6)
   \<and> (6, 6) = last (snake loopGame) \<and> (6, 6) \<noteq> food loopGame
   \<and> gameOver (step (\<lambda>_. 0) loopGame Tick) \<and> \<not> isRunning (step (\<lambda>_. 0) loopGame Tick)"
proof -
  have r: "running loopGame" by (simp add: running_def loopGame_def)
  have l: "2 \<le> length (snake loopGame)" by (simp add: loopGame_def)
  have h: "newHead loopGame = Some (6, 6)" by (simp add: newHead_def loopGame_def)
  have t: "(6, 6) = last (snake loopGame)" by (simp add: loopGame_def)
  have f: "(6, 6) \<noteq> food loopGame" by (simp add: loopGame_def)
  from r l h t f tick_into_tail_game_over [OF r l h t f, of "\<lambda>_. 0"] show ?thesis by simp
qed

subsection \<open>Direction input\<close>

text \<open>
  Claim C5. A key that denotes a direction \<open>d\<close> leaves the session as it is when \<open>d\<close> is the
  component-wise negation of the committed direction, and otherwise overwrites the buffered
  direction with \<open>d\<close> and changes nothing else; the next tick commits the buffered direction.
  With committed direction \<open>(1, 0)\<close> the input \<open>(-1, 0)\<close> (the left arrow) changes nothing.
\<close>

theorem direction_input_buffered:
  assumes "keyDirection k = Some d"
  shows "onKeyDown rnd k g
           = (if d = (- fst (direction g), - snd (direction g)) then g
              else g \<lparr> nextDirection := d \<rparr>)
         \<and> direction (tick rnd (onKeyDown rnd k g)) = nextDirection (onKeyDown rnd k g)
         \<and> (direction g = (1, 0) \<longrightarrow> onKeyDown rnd ''ArrowLeft'' g = g)"
proof -
  from assms have "k \<noteq> ''Shift''" by (auto simp: keyDirection_def split: if_splits)
  with assms have 1: "onKeyDown rnd k g = steer d g" by (simp add: onKeyDown_def)
  have 2: "direction (tick rnd s) = nextDirection s" for s
    by (cases "snake s") (auto simp: tick_def Let_def randomColor_def split: prod.splits)
  have 3: "onKeyDown rnd ''ArrowLeft'' g = g" if "direction g = (1, 0)"
    using that by (simp add: onKeyDown_def keyDirection_def steer_def)
  from 1 2 3 show ?thesis by (auto simp: steer_def prod_eq_iff)
qed

theorem direction_input_buffered_witness:
  "keyDirection ''ArrowLeft'' = Some (-1, 0) \<and> keyDirection ''w'' = Some (0, -1)
   \<and> direction eastGame = (1, 0)
   \<and> onKeyDown (\<lambda>_. 0) ''ArrowLeft'' eastGame = eastGame
   \<and> direction (tick (\<lambda>_. 0) (onKeyDown (\<lambda>_. 0) ''ArrowLeft'' eastGame)) = (0, 1)
   \<and> onKeyDown (\<lambda>_. 0) ''w'' eastGame = eastGame \<lparr> nextDirection := (0, -1) \<rparr>"
proof -
  have l: "keyDirection ''ArrowLeft'' = Some (-1, 0)" by (simp add: keyDirection_def)
  have w: "keyDirection ''w'' = Some (0, -1)" by (simp add: keyDirection_def)
  have d: "direction eastGame = (1, 0)" by (simp add: eastGame_def)
  have n: "nextDirection eastGame = (0, 1)" by (simp add: eastGame_def)
  from direction_input_buffered [OF l, of "\<lambda>_. 0" eastGame]
       direction_input_buffered [OF w, of "\<lambda>_. 0" eastGame] l w d n
  show ?thesis by simp
qed

subsection \<open>The length of the snake\<close>

lemma step_nonempty: "snake g \<noteq> [] \<Longrightarrow> snake (step rnd g e) \<noteq> []"
proof (cases e)
  case (Key k)
  assume "snake g \<noteq> []"
  then show ?thesis using Key
    by (auto simp: onKeyDown_def toggle_def resetGame_def steer_def Let_def split_beta
        split: option.splits)
next
  case Tick
  assume ne: "snake g \<noteq> []"
  then obtain h t where s: "snake g = h # t" by (cases "snake g") auto
  show ?thesis using Tick ne by (simp add: tick_Cons [OF s] Let_def)
next
  case PlayAgain
  assume "snake g \<noteq> []"
  then show ?thesis using PlayAgain by (simp add: resetGame_def Let_def split_beta)
next
  case StartPause
  assume "snake g \<noteq> []"
  then show ?thesis using StartPause by (simp add: toggle_def resetGame_def Let_def split_beta)
qed

lemma run_snoc: "run rnd (evs @ [e]) = step rnd (run rnd evs) e"
  by (simp add: run_def)

lemma run_nonempty: "snake (run rnd evs) \<noteq> []"
proof (induction evs rule: rev_induct)
  case Nil
  show ?case by (simp add: run_def initialGame_def Let_def split_beta)
next
  case (snoc e evs)
  then show ?case by (simp add: run_snoc step_nonempty)
qed

lemma step_length_mono:
  assumes "running g" and "snake g \<noteq> []"
  shows "length (snake g) \<le> length (snake (step rnd g e))"
proof (cases e)
  case (Key k)
  with assms(1) show ?thesis
    by (auto simp: onKeyDown_def toggle_def steer_def running_def split: option.splits)
next
  case Tick
  from assms(2) obtain h t where s: "snake g = h # t" by (cases "snake g") auto
  show ?thesis using Tick assms by (simp add: tick_Cons [OF s] Let_def)
next
  case PlayAgain
  with assms(1) show ?thesis by (simp add: running_def)
next
  case StartPause
  with assms(1) show ?thesis by (simp add: toggle_def running_def)
qed

lemma tick_length:
  assumes "running g" and "snake g \<noteq> []" and "\<not> gameOver (step rnd g Tick)"
  shows "length (snake (step rnd g Tick))
         = length (snake g) + (if newHead g = Some (food g) then 1 else 0)"
proof -
  from assms(2) obtain h t where s: "snake g = h # t" by (cases "snake g") auto
  have nh: "newHead g = Some (fst h + fst (nextDirection g), snd h + snd (nextDirection g))"
    by (simp add: newHead_def s)
  from assms show ?thesis
    by (simp add: tick_Cons [OF s] Let_def nh running_def split: if_splits)
qed

text \<open>
  Claim C3. In every state that a sequence of events reaches from the initial state, the
  snake has at least one cell; while the session is running no event makes the snake
  shorter; and a tick taken while running that does not end the game leaves a snake one
  cell longer when the new head is the food cell, and of the same length otherwise.
\<close>

theorem snake_length_invariant:
  "1 \<le> length (snake (run rnd evs))
   \<and> (running (run rnd evs)
        \<longrightarrow> length (snake (run rnd evs)) \<le> length (snake (step rnd (run rnd evs) e)))
   \<and> (running (run rnd evs) \<and> \<not> gameOver (step rnd (run rnd evs) Tick)
        \<longrightarrow> length (snake (step rnd (run rnd evs) Tick))
            = length (snake (run rnd evs))
              + (if newHead (run rnd evs) = Some (food (run rnd evs)) then 1 else 0))"
proof -
  have ne: "snake (run rnd evs) \<noteq> []" by (rule run_nonempty)
  then have "1 \<le> length (snake (run rnd evs))" by (cases "snake (run rnd evs)") auto
  with ne show ?thesis using step_length_mono tick_length by blast
qed

theorem snake_length_invariant_witness:
  "running (run rnd0 [StartPause]) \<and> \<not> gameOver (step rnd0 (run rnd0 [StartPause]) Tick)
   \<and> newHead (run rnd0 [StartPause]) = Some (food (run rnd0 [StartPause]))
   \<and> length (snake (run rnd0 [StartPause])) = 1
   \<and> length (snake (step rnd0 (run rnd0 [StartPause]) Tick)) = 2"
proof -
  have 1: "running (run rnd0 [StartPause])" by code_simp
  have 2: "\<not> gameOver (step rnd0 (run rnd0 [StartPause]) Tick)" by code_simp
  have 3: "newHead (run rnd0 [StartPause]) = Some (food (run rnd0 [StartPause]))" by code_simp
  have 4: "length (snake (run rnd0 [StartPause])) = 1" by code_simp
  from snake_length_invariant [of rnd0 "[StartPause]" Tick] 1 2 3 4 show ?thesis by simp
qed

subsection \<open>Food\<close>

lemma randomInt_range:
  assumes "rng_ok rnd"
  shows "0 \<le> randomInt rnd n 20 \<and> randomInt rnd n 20 < 20"
proof -
  from assms have "0 \<le> rnd n" and "rnd n < 1" by (auto simp: rng_ok_def)
  then have "0 \<le> rnd n * 20" and "rnd n * 20 < 20" by auto
  then show ?thesis unfolding randomInt_def by (simp add: floor_less_iff)
qed

lemma foodCandidate_inBoard: "rng_ok rnd \<Longrightarrow> \<not> outOfBoard (foodCandidate rnd n k)"
  using randomInt_range [of rnd]
  by (simp add: inBoard_iff foodCandidate_def BOARD_SIZE_def)

lemma foodCandidate_shift: "foodCandidate rnd (Suc (Suc n)) k = foodCandidate rnd n (Suc k)"
  by (simp add: foodCandidate_def)

lemma generateFood_from_result:
  "(\<exists>k. i + k < 100 \<and> fst (generateFood_from rnd body i n) = foodCandidate rnd n k
        \<and> foodCandidate rnd n k \<notin> set body \<and> (\<forall>j<k. foodCandidate rnd n j \<in> set body))
   \<or> ((\<forall>k. i + k < 100 \<longrightarrow> foodCandidate rnd n k \<in> set body)
      \<and> fst (generateFood_from rnd body i n) = (0, 0))"
proof (induction rnd body i n rule: generateFood_from.induct)
  case (1 rnd body i n)
  let ?c = "(randomInt rnd n BOARD_SIZE, randomInt rnd (Suc n) BOARD_SIZE)"
  have c0: "foodCandidate rnd n 0 = ?c" by (simp add: foodCandidate_def)
  show ?case
  proof (cases "i < 100")
    case False
    then show ?thesis by (simp add: generateFood_from.simps [of rnd body i n])
  next
    case lt: True
    show ?thesis
    proof (cases "?c \<in> set body")
      case False
      with lt have "fst (generateFood_from rnd body i n) = ?c"
        by (simp add: generateFood_from.simps [of rnd body i n] list_ex_cellsEqual)
      with False lt c0 have "i + 0 < 100 \<and> fst (generateFood_from rnd body i n) = foodCandidate rnd n 0
        \<and> foodCandidate rnd n 0 \<notin> set body \<and> (\<forall>j<0. foodCandidate rnd n j \<in> set body)"
        by simp
      then show ?thesis by blast
    next
      case True
      with lt have eq: "generateFood_from rnd body i n
          = generateFood_from rnd body (Suc i) (Suc (Suc n))"
        by (simp add: generateFood_from.simps [of rnd body i n] list_ex_cellsEqual)
      from True lt have "\<not> \<not> list_ex (\<lambda>s. cellsEqual s ?c) body"
        by (simp add: list_ex_cellsEqual)
      from "1.IH" [OF lt refl this]
      consider k where "Suc i + k < 100"
          and "fst (generateFood_from rnd body (Suc i) (Suc (Suc n)))
               = foodCandidate rnd (Suc (Suc n)) k"
          and "foodCandidate rnd (Suc (Suc n)) k \<notin> set body"
          and "\<forall>j<k. foodCandidate rnd (Suc (Suc n)) j \<in> set body"
        | "\<forall>k. Suc i + k < 100 \<longrightarrow> foodCandidate rnd (Suc (Suc n)) k \<in> set body"
          and "fst (generateFood_from rnd body (Suc i) (Suc (Suc n))) = (0, 0)"
        by blast
      then show ?thesis
      proof cases
        case 1
        have "\<forall>j<Suc k. foodCandidate rnd n j \<in> set body"
        proof (intro allI impI)
          fix j assume "j < Suc k"
          show "foodCandidate rnd n j \<in> set body"
          proof (cases j)
            case 0
            with True c0 show ?thesis by simp
          next
            case (Suc j')
            with \<open>j < Suc k\<close> 1(4) show ?thesis by (simp add: foodCandidate_shift)
          qed
        qed
        with 1 have "i + Suc k < 100
            \<and> fst (generateFood_from rnd body i n) = foodCandidate rnd n (Suc k)
            \<and> foodCandidate rnd n (Suc k) \<notin> set body
            \<and> (\<forall>j<Suc k. foodCandidate rnd n j \<in> set body)"
          by (simp add: eq foodCandidate_shift)
        then show ?thesis by blast
      next
        case 2
        have "\<forall>k. i + k < 100 \<longrightarrow> foodCandidate rnd n k \<in> set body"
        proof (intro allI impI)
          fix k assume "i + k < 100"
          show "foodCandidate rnd n k \<in> set body"
          proof (cases k)
            case 0
            with True c0 show ?thesis by simp
          next
            case (Suc k')
            with \<open>i + k < 100\<close> 2(1) show ?thesis by (simp add: foodCandidate_shift)
          qed
        qed
        with 2 show ?thesis by (simp add: eq)
      qed
    qed
  qed
qed

lemma generateFood_result:
  "(\<exists>k<100. fst (generateFood rnd body n) = foodCandidate rnd n k
        \<and> foodCandidate rnd n k \<notin> set body \<and> (\<forall>j<k. foodCandidate rnd n j \<in> set body))
   \<or> ((\<forall>k<100. foodCandidate rnd n k \<in> set body) \<and> fst (generateFood rnd body n) = (0, 0))"
  using generateFood_from_result [of 0 rnd body n] by (simp add: generateFood_def)

lemma generateFood_inBoard:
  assumes "rng_ok rnd"
  shows "\<not> outOfBoard (fst (generateFood rnd body n))"
  using generateFood_result [of rnd body n] foodCandidate_inBoard [OF assms]
  by (auto simp: inBoard_iff)

lemma step_food_inBoard:
  assumes "rng_ok rnd" and "\<not> outOfBoard (food g)"
  shows "\<not> outOfBoard (food (step rnd g e))"
proof -
  have reset: "\<not> outOfBoard (food (resetGame rnd g))"
    using generateFood_inBoard [OF assms(1)] by (simp add: resetGame_def Let_def split_beta)
  have tk: "\<not> outOfBoard (food (tick rnd g))"
  proof (cases "snake g")
    case Nil
    with assms(2) show ?thesis by (simp add: tick_def)
  next
    case (Cons h t)
    show ?thesis using assms(2) generateFood_inBoard [OF assms(1)]
      by (simp add: tick_Cons [OF Cons] Let_def)
  qed
  show ?thesis
  proof (cases e)
    case (Key k)
    with assms(2) reset show ?thesis
      by (auto simp: onKeyDown_def toggle_def steer_def split: option.splits)
  next
    case Tick
    with assms(2) tk show ?thesis by simp
  next
    case PlayAgain
    with assms(2) reset show ?thesis by simp
  next
    case StartPause
    with assms(2) reset show ?thesis by (simp add: toggle_def)
  qed
qed

lemma run_food_inBoard:
  assumes "rng_ok rnd"
  shows "\<not> outOfBoard (food (run rnd evs))"
proof (induction evs rule: rev_induct)
  case Nil
  show ?case using generateFood_inBoard [OF assms]
    by (simp add: run_def initialGame_def Let_def split_beta)
next
  case (snoc e evs)
  then show ?case by (simp add: run_snoc step_food_inBoard [OF assms])
qed

lemma faster_eq: "faster t = (if t * (9 / 10) < 150 then 150 else t * (9 / 10))"
  by (simp add: faster_def MIN_TICK_MS_def Let_def)

text \<open>
  Claim C6 does not hold as it is stated: the collision tests come before the food test.
  The events \<open>evs0\<close> lead, from the initial state, to a running session whose new head is the
  food cell \<open>(0, 0)\<close>, which is also the cell of the tail; the tick ends the game, the snake
  does not grow, and the score and the tick interval stay as they are.
\<close>

theorem food_pickup_collides_counterexample:
  "rng_ok rnd0 \<and> running (run rnd0 evs0)
   \<and> newHead (run rnd0 evs0) = Some (food (run rnd0 evs0))
   \<and> gameOver (step rnd0 (run rnd0 evs0) Tick)
   \<and> snake (step rnd0 (run rnd0 evs0) Tick) = snake (run rnd0 evs0)
   \<and> length (snake (step rnd0 (run rnd0 evs0) Tick)) \<noteq> length (snake (run rnd0 evs0)) + 1
   \<and> score (step rnd0 (run rnd0 evs0) Tick) = score (run rnd0 evs0)
   \<and> tickMs (step rnd0 (run rnd0 evs0) Tick) = tickMs (run rnd0 evs0)"
proof -
  have "rng_ok rnd0" by (simp add: rng_ok_def rnd0_def)
  moreover have "running (run rnd0 evs0)
   \<and> newHead (run rnd0 evs0) = Some (food (run rnd0 evs0))
   \<and> gameOver (step rnd0 (run rnd0 evs0) Tick)
   \<and> snake (step rnd0 (run rnd0 evs0) Tick) = snake (run rnd0 evs0)
   \<and> length (snake (step rnd0 (run rnd0 evs0) Tick)) \<noteq> length (snake (run rnd0 evs0)) + 1
   \<and> score (step rnd0 (run rnd0 evs0) Tick) = score (run rnd0 evs0)
   \<and> tickMs (step rnd0 (run rnd0 evs0) Tick) = tickMs (run rnd0 evs0)"
    by code_simp
  ultimately show ?thesis by (rule conjI)
qed

text \<open>
  Claim C6, amended. In a state reached from the initial state, a tick taken while running
  whose new head is the food cell and is not a cell of the snake prepends the new head and
  keeps the tail, adds one to the score, and sets the tick interval to nine tenths of what
  it was, or to 150 when that is less. The new food cell is on the board. It is the first
  of the hundred candidates that is not a cell of the grown snake; when all hundred
  candidates are cells of the grown snake it is \<open>(0, 0)\<close>, occupied or not. So it is not a
  cell of the grown snake unless the hundred attempts are exhausted.
\<close>

theorem tick_food_pickup:
  assumes "rng_ok rnd"
    and "g = run rnd evs"
    and "running g"
    and "newHead g = Some nh"
    and "nh = food g"
    and "nh \<notin> set (snake g)"
  shows "snake (step rnd g Tick) = nh # snake g
    \<and> score (step rnd g Tick) = score g + 1
    \<and> tickMs (step rnd g Tick)
        = (if tickMs g * (9 / 10) < 150 then 150 else tickMs g * (9 / 10))
    \<and> 0 \<le> fst (food (step rnd g Tick)) \<and> fst (food (step rnd g Tick)) < 20
    \<and> 0 \<le> snd (food (step rnd g Tick)) \<and> snd (food (step rnd g Tick)) < 20
    \<and> ((\<exists>k<100. food (step rnd g Tick) = foodCandidate rnd (Suc (draws g)) k
              \<and> food (step rnd g Tick) \<notin> set (snake (step rnd g Tick))
              \<and> (\<forall>j<k. foodCandidate rnd (Suc (draws g)) j \<in> set (snake (step rnd g Tick))))
       \<or> (\<forall>k<100. foodCandidate rnd (Suc (draws g)) k \<in> set (snake (step rnd g Tick)))
         \<and> food (step rnd g Tick) = (0, 0))
    \<and> ((\<forall>k<100. foodCandidate rnd (Suc (draws g)) k \<in> set (snake (step rnd g Tick)))
         \<longrightarrow> food (step rnd g Tick) = (0, 0))
    \<and> ((\<exists>k<100. foodCandidate rnd (Suc (draws g)) k \<notin> set (snake (step rnd g Tick)))
         \<longrightarrow> food (step rnd g Tick) \<notin> set (snake (step rnd g Tick)))"
proof -
  from assms(1,2,5) have inb: "\<not> outOfBoard nh" by (simp add: run_food_inBoard)
  have t: "tick rnd g = g \<lparr> direction := nextDirection g, snake := nh # snake g,
            score := score g + 1, tickMs := faster (tickMs g),
            snakeColor := fst (randomColor rnd (draws g)),
            food := fst (generateFood rnd (nh # snake g) (Suc (draws g))),
            draws := snd (generateFood rnd (nh # snake g) (Suc (draws g))) \<rparr>"
    using assms(4) inb assms(6) assms(5) by (rule tick_grow)
  let ?f = "fst (generateFood rnd (nh # snake g) (Suc (draws g)))"
  let ?c = "foodCandidate rnd (Suc (draws g))"
  let ?grown = "nh # snake g"
  have f: "food (step rnd g Tick) = ?f" and s: "snake (step rnd g Tick) = ?grown"
    and sc: "score (step rnd g Tick) = score g + 1"
    and tm: "tickMs (step rnd g Tick) = faster (tickMs g)"
    using assms(3) by (simp_all add: t)
  have rngf: "0 \<le> fst ?f \<and> fst ?f < 20 \<and> 0 \<le> snd ?f \<and> snd ?f < 20"
    using generateFood_inBoard [OF assms(1), of ?grown "Suc (draws g)"]
    by (simp add: inBoard_iff)
  have rule: "(\<exists>k<100. ?f = ?c k \<and> ?f \<notin> set ?grown \<and> (\<forall>j<k. ?c j \<in> set ?grown))
       \<or> (\<forall>k<100. ?c k \<in> set ?grown) \<and> ?f = (0, 0)"
    using generateFood_result [of rnd ?grown "Suc (draws g)"] by metis
  have exhausted: "?f = (0, 0)" if "\<forall>k<100. ?c k \<in> set ?grown"
    using rule that by metis
  have free: "?f \<notin> set ?grown" if "\<exists>k<100. ?c k \<notin> set ?grown"
    using rule that by metis
  show ?thesis
    unfolding f s sc tm faster_eq
    using rngf rule exhausted free by (intro conjI impI) simp_all
qed

theorem tick_food_pickup_witness:
  "rng_ok rnd0 \<and> running (run rnd0 [StartPause])
   \<and> newHead (run rnd0 [StartPause]) = Some (11, 10)
   \<and> (11, 10) = food (run rnd0 [StartPause])
   \<and> (11, 10) \<notin> set (snake (run rnd0 [StartPause]))
   \<and> snake (step rnd0 (run rnd0 [StartPause]) Tick) = [(11, 10), (10, 10)]
   \<and> score (step rnd0 (run rnd0 [StartPause]) Tick) = 1
   \<and> tickMs (step rnd0 (run rnd0 [StartPause]) Tick) = 720
   \<and> food (step rnd0 (run rnd0 [StartPause]) Tick) = (1, 1)
   \<and> running (run rnd0 evsCorner)
   \<and> newHead (run rnd0 evsCorner) = Some (1, 0)
   \<and> (1, 0) = food (run rnd0 evsCorner)
   \<and> (1, 0) \<notin> set (snake (run rnd0 evsCorner))
   \<and> snake (step rnd0 (run rnd0 evsCorner) Tick) = [(1, 0), (1, 1), (0, 1), (0, 0)]
   \<and> food (step rnd0 (run rnd0 evsCorner) Tick) = (0, 0)"
proof -
  have ok: "rng_ok rnd0" by (simp add: rng_ok_def rnd0_def)
  have r: "running (run rnd0 [StartPause])" by code_simp
  have h: "newHead (run rnd0 [StartPause]) = Some (11, 10)" by code_simp
  have f: "(11, 10) = food (run rnd0 [StartPause])" by code_simp
  have n: "(11, 10) \<notin> set (snake (run rnd0 [StartPause]))" by code_simp
  have s: "snake (run rnd0 [StartPause]) = [(10, 10)]" by code_simp
  have c: "score (run rnd0 [StartPause]) = 0" by code_simp
  have t: "tickMs (run rnd0 [StartPause]) = 800" by code_simp
  have f1: "food (step rnd0 (run rnd0 [StartPause]) Tick) = (1, 1)" by code_simp
  have r': "running (run rnd0 evsCorner)" by code_simp
  have h': "newHead (run rnd0 evsCorner) = Some (1, 0)" by code_simp
  have f': "(1, 0) = food (run rnd0 evsCorner)" by code_simp
  have n': "(1, 0) \<notin> set (snake (run rnd0 evsCorner))" by code_simp
  have s': "snake (run rnd0 evsCorner) = [(1, 1), (0, 1), (0, 0)]" by code_simp
  have f2: "food (step rnd0 (run rnd0 evsCorner) Tick) = (0, 0)" by code_simp
  have first: "snake (step rnd0 (run rnd0 [StartPause]) Tick) = [(11, 10), (10, 10)]
      \<and> score (step rnd0 (run rnd0 [StartPause]) Tick) = 1
      \<and> tickMs (step rnd0 (run rnd0 [StartPause]) Tick) = 720"
    using tick_food_pickup [OF ok refl r h f n] s c t by simp
  have second: "snake (step rnd0 (run rnd0 evsCorner) Tick) = [(1, 0), (1, 1), (0, 1), (0, 0)]"
    using tick_food_pickup [OF ok refl r' h' f' n'] s' by simp
  from ok r h f n first f1 r' h' f' n' second f2 show ?thesis by simp
qed

section \<open>Properties of the scoreboard service\<close>

subsection \<open>Rejected scores\<close>

text \<open>
  What the route does for a score that \<^verbatim>\<open>Number\<close> converts: a number that is not finite,
  or is negative, is answered with status 400 and the store is not touched.
\<close>

lemma invalid_number_rejected:
  assumes "json_body rq = Inr (Some b)" and "body_score b = Inr sc"
    and "\<not> isFinite sc \<or> js_less sc (Fin 0)"
  shows "(\<exists>m. fst (snakeScore rq r) = Response 400 (ErrorResponse m))
         \<and> snd (snakeScore rq r) = r"
  using assms by (simp add: snakeScore_def)

text \<open>No request without a finite, non-negative score reaches the store.\<close>

lemma snakeScore_rejected:
  assumes "falsy (postId rq) \<or> (\<exists>e. json_body rq = Inl e) \<or> json_body rq = Inr None
   \<or> (\<exists>b e. json_body rq = Inr (Some b) \<and> body_score b = Inl e)
   \<or> (\<exists>b sc. json_body rq = Inr (Some b) \<and> body_score b = Inr sc
         \<and> (\<not> isFinite sc \<or> js_less sc (Fin 0)))"
  shows "snd (snakeScore rq r) = r"
  using assms by (auto simp: snakeScore_def)

lemma snakeScore_accepted:
  "\<not> falsy (postId rq) \<Longrightarrow> json_body rq = Inr (Some b) \<Longrightarrow> body_score b = Inr sc
   \<Longrightarrow> isFinite sc \<Longrightarrow> \<not> js_less sc (Fin 0)
   \<Longrightarrow> snakeScore rq r = saveScore rq r (the (postId rq)) b sc"
  by (simp add: snakeScore_def)

text \<open>
  Claim C7 at two requests whose score is not a finite number: the body \<^verbatim>\<open>null\<close>, and the
  body \<^verbatim>\<open>{"score": {"toString": 1}}\<close>. For both, \<^verbatim>\<open>const score = Number(body.score)\<close> throws a
  \<^verbatim>\<open>TypeError\<close> outside every \<^verbatim>\<open>try\<close> block of the route. The store is not touched, as the
  claim says, but the answer is not the error with status 400 that the claim says: it is
  the plain text with status 500 of the framework.
\<close>

theorem unconvertible_score_not_rejected:
  "json_body nullBodyRequest = Inr None
   \<and> snakeScore nullBodyRequest testStore
       = (Response 500 (PlainText ''Internal Server Error''), testStore)
   \<and> json_body unconvertibleRequest
       = Inr (Some \<lparr> body_score = Inl (Error ''Cannot convert object to primitive value''),
                     body_message = None \<rparr>)
   \<and> snakeScore unconvertibleRequest testStore
       = (Response 500 (PlainText ''Internal Server Error''), testStore)"
  by (simp add: snakeScore_def nullBodyRequest_def unconvertibleRequest_def testRequest_def
      falsy_def uncaught_def)

theorem unconvertible_score_not_rejected_witness:
  "(\<forall>m. fst (snakeScore nullBodyRequest testStore) \<noteq> Response 400 (ErrorResponse m))
   \<and> (\<forall>m. fst (snakeScore unconvertibleRequest testStore) \<noteq> Response 400 (ErrorResponse m))
   \<and> snd (snakeScore nullBodyRequest testStore) = testStore
   \<and> snd (snakeScore unconvertibleRequest testStore) = testStore"
  using unconvertible_score_not_rejected by simp

subsection \<open>The init route\<close>

lemma snakeInit_store:
  "texts (snd (snakeInit rq r)) = texts r \<and> docs (snd (snakeInit rq r)) = docs r
   \<and> (accessLog (snd (snakeInit rq r)) = accessLog r
      \<or> accessLog (snd (snakeInit rq r))
          = accessLog r @ [Get (fst (snakeKeysForPost (the (postId rq)))),
                     Get (snd (snakeKeysForPost (the (postId rq))))])"
  by (simp add: snakeInit_def Let_def redis_get_def redis_get_json_def split_beta
      split: sum.splits)

lemma snakeInit_ok:
  assumes "postId rq = Some pid" and "pid \<noteq> []"
    and "fault rq (Get (fst (snakeKeysForPost pid))) = None"
    and "fault rq (Get (snd (snakeKeysForPost pid))) = None"
    and "currentUsername rq = Inr u"
  shows "fst (snakeInit rq r)
    = Response 200 (SnakeInitResponse pid (case u of None \<Rightarrow> ''anonymous'' | Some n \<Rightarrow> n)
        (readHighScore (texts r (fst (snakeKeysForPost pid))))
        (readComments (docs r (snd (snakeKeysForPost pid)))))"
  using assms
  by (simp add: snakeInit_def Let_def redis_get_def redis_get_json_def split_beta falsy_def)

text \<open>
  Claim C8. The init route writes nothing: the slots are as before, and every access it
  adds to the log is a read. When the post is known and neither the reads nor the user
  lookup throw, the answer is a success whatever the comments slot holds; its high score is
  0 when the high-score slot is absent, and its comments are empty when the comments slot is
  absent, holds text that does not parse, or holds a value that is not an array.
\<close>

theorem init_defaults_read_only:
  "texts (snd (snakeInit rq r)) = texts r \<and> docs (snd (snakeInit rq r)) = docs r
   \<and> (\<forall>a \<in> set (accessLog (snd (snakeInit rq r))). a \<in> set (accessLog r) \<or> (\<exists>k. a = Get k))
   \<and> (postId rq = Some pid \<and> pid \<noteq> []
        \<and> fault rq (Get (fst (snakeKeysForPost pid))) = None
        \<and> fault rq (Get (snd (snakeKeysForPost pid))) = None
        \<and> currentUsername rq = Inr u
      \<longrightarrow> (\<exists>name highScore comments.
           fst (snakeInit rq r) = Response 200 (SnakeInitResponse pid name highScore comments)
           \<and> (texts r (fst (snakeKeysForPost pid)) = None \<longrightarrow> highScore = Fin 0)
           \<and> (docs r (snd (snakeKeysForPost pid)) = None \<longrightarrow> comments = [])
           \<and> (docs r (snd (snakeKeysForPost pid)) = Some None \<longrightarrow> comments = [])
           \<and> (\<forall>v. docs r (snd (snakeKeysForPost pid)) = Some (Some v) \<and> (\<forall>xs. v \<noteq> JArr xs)
                  \<longrightarrow> comments = [])))"
proof -
  have 1: "readHighScore None = Fin 0" by (simp add: readHighScore_def)
  have 2: "readComments None = []" "readComments (Some None) = []"
    by (simp_all add: readComments_def)
  have 3: "readComments (Some (Some v)) = []" if "\<forall>xs. v \<noteq> JArr xs" for v
    using that by (cases v) (simp_all add: readComments_def)
  have 4: "\<forall>a \<in> set (accessLog (snd (snakeInit rq r))). a \<in> set (accessLog r) \<or> (\<exists>k. a = Get k)"
    using snakeInit_store [of rq r] by auto
  show ?thesis
    using 1 2 3 4 snakeInit_store [of rq r] snakeInit_ok [of rq pid u r] by auto
qed

theorem init_defaults_read_only_witness:
  "postId (testRequest NaN None) = Some ''t3_abc'' \<and> ''t3_abc'' \<noteq> []
   \<and> fault (testRequest NaN None) (Get (fst (snakeKeysForPost ''t3_abc''))) = None
   \<and> fault (testRequest NaN None) (Get (snd (snakeKeysForPost ''t3_abc''))) = None
   \<and> currentUsername (testRequest NaN None) = Inr (Some ''ann'')
   \<and> texts malformedStore (fst (snakeKeysForPost ''t3_abc'')) = None
   \<and> docs malformedStore (snd (snakeKeysForPost ''t3_abc'')) = Some None
   \<and> fst (snakeInit (testRequest NaN None) malformedStore)
       = Response 200 (SnakeInitResponse ''t3_abc'' ''ann'' (Fin 0) [])
   \<and> texts (snd (snakeInit (testRequest NaN None) malformedStore)) = texts malformedStore
   \<and> docs (snd (snakeInit (testRequest NaN None) malformedStore)) = docs malformedStore"
proof -
  have h: "postId (testRequest NaN None) = Some ''t3_abc''"
      "fault (testRequest NaN None) (Get (fst (snakeKeysForPost ''t3_abc''))) = None"
      "fault (testRequest NaN None) (Get (snd (snakeKeysForPost ''t3_abc''))) = None"
      "currentUsername (testRequest NaN None) = Inr (Some ''ann'')"
    by (simp_all add: testRequest_def)
  have s: "texts malformedStore (fst (snakeKeysForPost ''t3_abc'')) = None"
      "docs malformedStore (snd (snakeKeysForPost ''t3_abc'')) = Some None"
    by (simp_all add: malformedStore_def snakeKeysForPost_def)
  have n: "fst (snakeInit (testRequest NaN None) malformedStore)
       = Response 200 (SnakeInitResponse ''t3_abc'' ''ann'' (Fin 0) [])"
    using snakeInit_ok [of "testRequest NaN None" "''t3_abc''" "Some ''ann''" malformedStore] h s
    by (simp add: readHighScore_def readComments_def)
  from init_defaults_read_only
         [of "testRequest NaN None" malformedStore "''t3_abc''" "Some ''ann''"] h s n
  show ?thesis by simp
qed

subsection \<open>Failures of the store\<close>

text \<open>
  Claim C9 does not hold as it is stated: the \<^verbatim>\<open>catch\<close> block of the score route answers with
  status 400, the status of a rejected score, and its message carries the message of the
  error. Here the read of the high-score slot throws \<^verbatim>\<open>ECONNRESET\<close>.
\<close>

theorem persistence_failure_status_counterexample:
  "performed testStore (snd (snakeScore brokenRequest testStore))
     = [Get ''snake:t3_abc:highscore'', Get ''snake:t3_abc:comments'']
   \<and> fault brokenRequest (Get ''snake:t3_abc:highscore'') = Some (Error ''ECONNRESET'')
   \<and> fst (snakeScore brokenRequest testStore)
       = Response 400 (ErrorResponse ''Saving score failed: ECONNRESET'')
   \<and> fst (snakeScore (testRequest (Fin (- 1)) None) testStore)
       = Response 400 (ErrorResponse ''Score must be a non-negative number'')"
  by (simp add: snakeScore_def saveScore_def brokenRequest_def testRequest_def testStore_def
      falsy_def performed_def snakeKeysForPost_def redis_get_def redis_get_json_def
      scoreCatch_def Let_def)

lemma saveScore_failure:
  assumes "\<exists>a \<in> set (performed r (snd (saveScore rq r pid b sc))). fault rq a \<noteq> None"
  shows "\<exists>a e. a \<in> set (performed r (snd (saveScore rq r pid b sc))) \<and> fault rq a = Some e
            \<and> fst (saveScore rq r pid b sc) = scoreCatch e"
proof -
  obtain sk ck where keys: "snakeKeysForPost pid = (sk, ck)"
    by (cases "snakeKeysForPost pid") auto
  note defs = saveScore_def keys performed_def Let_def redis_get_def redis_get_json_def
    redis_set_def redis_set_json_def
  show ?thesis
  proof (cases "fault rq (Get sk)")
    case (Some e)
    then have "fst (saveScore rq r pid b sc) = scoreCatch e"
      and "Get sk \<in> set (performed r (snd (saveScore rq r pid b sc)))"
      by (simp_all add: defs split: sum.splits option.splits)
    with Some show ?thesis by blast
  next
    case g1: None
    show ?thesis
    proof (cases "fault rq (Get ck)")
      case (Some e)
      with g1 have "fst (saveScore rq r pid b sc) = scoreCatch e"
        and "Get ck \<in> set (performed r (snd (saveScore rq r pid b sc)))"
        by (simp_all add: defs split: sum.splits option.splits)
      with Some show ?thesis by blast
    next
      case g2: None
      show ?thesis
      proof (cases "currentUsername rq")
        case (Inl e)
        with g1 g2 have "performed r (snd (saveScore rq r pid b sc)) = [Get sk, Get ck]"
          by (simp add: defs)
        with assms g1 g2 show ?thesis by auto
      next
        case (Inr u)
        let ?nb = "js_greater sc (readHighScore (texts r sk))"
        let ?msg = "case body_message b of Some m \<Rightarrow> trim m | None \<Rightarrow> []"
        show ?thesis
        proof (cases "?nb \<and> fault rq (Set sk) \<noteq> None")
          case True
          then obtain e where e: "fault rq (Set sk) = Some e" by auto
          with True g1 g2 Inr have "fst (saveScore rq r pid b sc) = scoreCatch e"
            and "Set sk \<in> set (performed r (snd (saveScore rq r pid b sc)))"
            by (simp_all add: defs)
          with e show ?thesis by blast
        next
          case s1: False
          show ?thesis
          proof (cases "?msg \<noteq> [] \<and> fault rq (Set ck) \<noteq> None")
            case True
            then obtain e where e: "fault rq (Set ck) = Some e" by auto
            with True s1 g1 g2 Inr have "fst (saveScore rq r pid b sc) = scoreCatch e"
              and "Set ck \<in> set (performed r (snd (saveScore rq r pid b sc)))"
              by (auto simp: defs)
            with e show ?thesis by blast
          next
            case s2: False
            with s1 g1 g2 Inr
            have "\<forall>a \<in> set (performed r (snd (saveScore rq r pid b sc))). fault rq a = None"
              by (auto simp: defs)
            with assms show ?thesis by auto
          qed
        qed
      qed
    qed
  qed
qed

text \<open>
  Claim C9, amended. When an access to the store made while a score request is handled
  throws, the answer is an error with status 400 (the status that validation failures have
  too); its message is \<^verbatim>\<open>Saving score failed: \<close> followed by the message of the error thrown,
  or \<^verbatim>\<open>Unknown error while saving score\<close> when the thrown value is not an \<^verbatim>\<open>Error\<close>. The failure
  is never answered with a success.
\<close>

theorem persistence_failure_reported:
  assumes "\<exists>a \<in> set (performed r (snd (snakeScore rq r))). fault rq a \<noteq> None"
  shows "\<exists>a e. a \<in> set (performed r (snd (snakeScore rq r))) \<and> fault rq a = Some e
           \<and> fst (snakeScore rq r)
               = Response 400 (ErrorResponse
                   (case e of Error m \<Rightarrow> ''Saving score failed: '' @ m
                            | NotAnError \<Rightarrow> ''Unknown error while saving score''))"
proof (cases "falsy (postId rq) \<or> (\<exists>e. json_body rq = Inl e) \<or> json_body rq = Inr None
   \<or> (\<exists>b e. json_body rq = Inr (Some b) \<and> body_score b = Inl e)
   \<or> (\<exists>b sc. json_body rq = Inr (Some b) \<and> body_score b = Inr sc
         \<and> (\<not> isFinite sc \<or> js_less sc (Fin 0)))")
  case True
  then have "snd (snakeScore rq r) = r" by (rule snakeScore_rejected)
  with assms show ?thesis by (simp add: performed_def)
next
  case False
  then obtain b where b: "json_body rq = Inr (Some b)"
    by (cases "json_body rq") auto
  with False obtain sc where sc: "body_score b = Inr sc" by (cases "body_score b") auto
  from False b sc have "snakeScore rq r = saveScore rq r (the (postId rq)) b sc"
    by (intro snakeScore_accepted) auto
  with assms saveScore_failure [of r rq "the (postId rq)" b sc]
  obtain a e where "a \<in> set (performed r (snd (snakeScore rq r)))" and "fault rq a = Some e"
    and "fst (snakeScore rq r) = scoreCatch e"
    by auto
  moreover have "scoreCatch e = Response 400 (ErrorResponse
                   (case e of Error m \<Rightarrow> ''Saving score failed: '' @ m
                            | NotAnError \<Rightarrow> ''Unknown error while saving score''))"
    by (cases e) (simp_all add: scoreCatch_def)
  ultimately show ?thesis by auto
qed

theorem persistence_failure_reported_witness:
  "(\<exists>a \<in> set (performed testStore (snd (snakeScore brokenRequest testStore))).
       fault brokenRequest a \<noteq> None)
   \<and> (\<exists>a e. a \<in> set (performed testStore (snd (snakeScore brokenRequest testStore)))
         \<and> fault brokenRequest a = Some e
         \<and> fst (snakeScore brokenRequest testStore)
             = Response 400 (ErrorResponse
                 (case e of Error m \<Rightarrow> ''Saving score failed: '' @ m
                          | NotAnError \<Rightarrow> ''Unknown error while saving score'')))"
proof -
  have p: "performed testStore (snd (snakeScore brokenRequest testStore))
     = [Get ''snake:t3_abc:highscore'', Get ''snake:t3_abc:comments'']"
    by (simp add: snakeScore_def saveScore_def brokenRequest_def testRequest_def testStore_def
      falsy_def performed_def snakeKeysForPost_def redis_get_def redis_get_json_def
      scoreCatch_def Let_def)
  have f: "fault brokenRequest (Get ''snake:t3_abc:highscore'') \<noteq> None"
    by (simp add: brokenRequest_def)
  from p f have h: "\<exists>a \<in> set (performed testStore (snd (snakeScore brokenRequest testStore))).
       fault brokenRequest a \<noteq> None"
    by simp
  from persistence_failure_reported [OF h] h show ?thesis by (rule_tac conjI)
qed

subsection \<open>The comment log\<close>

lemma lastN_if: "(if length xs > n then drop (length xs - n) xs else xs) = lastN n xs"
  by (simp add: lastN_def)

lemma lastN_lastN_append: "lastN n (lastN n xs @ ys) = lastN n (xs @ ys)"
  by (cases "length xs \<le> n") (simp_all add: lastN_def add.commute)

lemma length_lastN: "length (lastN n xs) = min n (length xs)"
  by (simp add: lastN_def)

lemma keys_distinct: "fst (snakeKeysForPost pid) \<noteq> snd (snakeKeysForPost pid)"
  by (simp add: snakeKeysForPost_def Let_def)

lemma succeedsE:
  assumes "succeeds pid rq"
  obtains b sc u where "json_body rq = Inr (Some b)" and "body_score b = Inr sc"
    and "currentUsername rq = Inr u" and "isFinite sc" and "\<not> js_less sc (Fin 0)"
    and "postId rq = Some pid" and "pid \<noteq> []"
    and "fault rq (Get (fst (snakeKeysForPost pid))) = None"
    and "fault rq (Get (snd (snakeKeysForPost pid))) = None"
    and "fault rq (Set (fst (snakeKeysForPost pid))) = None"
    and "fault rq (Set (snd (snakeKeysForPost pid))) = None"
proof -
  from assms obtain b where b: "json_body rq = Inr (Some b)"
    by (cases "json_body rq") (auto simp: succeeds_def split: option.splits)
  with assms obtain sc where sc: "body_score b = Inr sc"
    by (cases "body_score b") (auto simp: succeeds_def)
  from assms obtain u where u: "currentUsername rq = Inr u"
    by (cases "currentUsername rq") (auto simp: succeeds_def)
  from assms b sc u that [OF b sc u] show ?thesis by (simp add: succeeds_def)
qed

lemma snakeScore_comment:
  assumes "succeeds pid rq" and "trimmedMessage rq \<noteq> []"
  shows "docs (snd (snakeScore rq r)) (snd (snakeKeysForPost pid))
           = Some (Some (JArr (lastN 20 (storedComments r pid @ [commentJson (commentOf rq)]))))"
    and "\<exists>hs nb. fst (snakeScore rq r)
           = Response 200 (SnakeScoreResponse pid hs nb (Some (commentOf rq)))"
proof -
  obtain sk ck where keys: "snakeKeysForPost pid = (sk, ck)"
    by (cases "snakeKeysForPost pid") auto
  from assms(1) obtain b sc u where b: "json_body rq = Inr (Some b)"
    and sc: "body_score b = Inr sc" and u: "currentUsername rq = Inr u"
    and v: "isFinite sc" "\<not> js_less sc (Fin 0)"
    and p: "postId rq = Some pid" "pid \<noteq> []"
    and f: "fault rq (Get sk) = None" "fault rq (Get ck) = None"
           "fault rq (Set sk) = None" "fault rq (Set ck) = None"
    by (rule succeedsE) (simp add: keys)
  from assms(2) b have m: "(case body_message b of Some m \<Rightarrow> trim m | None \<Rightarrow> []) \<noteq> []"
    by (simp add: trimmedMessage_def)
  have c: "commentOf rq = newComment rq sc u
             (case body_message b of Some m \<Rightarrow> trim m | None \<Rightarrow> [])"
    by (simp add: commentOf_def scoreOf_def trimmedMessage_def b sc u)
  from p have nf: "\<not> falsy (postId rq)" by (simp add: falsy_def)
  have eq: "snakeScore rq r = saveScore rq r pid b sc"
    using snakeScore_accepted [OF nf b sc v] p by simp
  show "docs (snd (snakeScore rq r)) (snd (snakeKeysForPost pid))
           = Some (Some (JArr (lastN 20 (storedComments r pid @ [commentJson (commentOf rq)]))))"
    unfolding eq c using m f u
    by (simp add: saveScore_def keys Let_def redis_get_def redis_get_json_def redis_set_def
        redis_set_json_def storedComments_def lastN_if split_beta)
  show "\<exists>hs nb. fst (snakeScore rq r)
           = Response 200 (SnakeScoreResponse pid hs nb (Some (commentOf rq)))"
    unfolding eq c using m f u
    by (auto simp: saveScore_def keys Let_def redis_get_def redis_get_json_def redis_set_def
        redis_set_json_def split_beta)
qed

lemma snakeScore_storedComments:
  assumes "succeeds pid rq" and "trimmedMessage rq \<noteq> []"
  shows "storedComments (snd (snakeScore rq r)) pid
           = lastN 20 (storedComments r pid @ [commentJson (commentOf rq)])"
  unfolding storedComments_def [of "snd (snakeScore rq r)"] snakeScore_comment(1) [OF assms]
  by (simp add: readComments_def)

lemma submitAll_storedComments:
  assumes "\<forall>rq \<in> set rqs. succeeds pid rq \<and> trimmedMessage rq \<noteq> []" and "rqs \<noteq> []"
  shows "storedComments (submitAll rqs r) pid
           = lastN 20 (storedComments r pid @ map (\<lambda>rq. commentJson (commentOf rq)) rqs)"
  using assms
proof (induction rqs arbitrary: r)
  case Nil
  then show ?case by simp
next
  case (Cons rq rqs)
  let ?r1 = "snd (snakeScore rq r)"
  from Cons.prems have ok: "succeeds pid rq" "trimmedMessage rq \<noteq> []" by auto
  have s1: "storedComments ?r1 pid = lastN 20 (storedComments r pid @ [commentJson (commentOf rq)])"
    using ok by (rule snakeScore_storedComments)
  show ?case
  proof (cases "rqs = []")
    case True
    with s1 show ?thesis by simp
  next
    case False
    with Cons have "storedComments (submitAll rqs ?r1) pid
           = lastN 20 (storedComments ?r1 pid @ map (\<lambda>rq. commentJson (commentOf rq)) rqs)"
      by simp
    then show ?thesis by (simp add: s1 lastN_lastN_append)
  qed
qed

text \<open>
  Claim C4. For requests that reach the store, each with a message that is not empty after
  \<^verbatim>\<open>trim\<close>: one request stores the log it found (empty when the slot is absent, does not
  parse or is not an array) with its comment appended, cut from the front to the last 20
  entries; a non-empty sequence of such requests leaves the last 20 entries of the first log
  followed by their comments, in order; and after 21 of them the log has exactly 20 entries,
  the comments of the last 20 requests in order.
\<close>

theorem comment_log_append_capped:
  assumes "\<forall>rq \<in> set rqs. succeeds pid rq \<and> trimmedMessage rq \<noteq> []"
  shows "(\<forall>rq \<in> set rqs. \<forall>r.
            docs (snd (snakeScore rq r)) (snd (snakeKeysForPost pid))
              = Some (Some (JArr (drop (length (storedComments r pid) + 1 - 20)
                                    (storedComments r pid @ [commentJson (commentOf rq)]))))
            \<and> length (storedComments (snd (snakeScore rq r)) pid) \<le> 20)
       \<and> (rqs \<noteq> [] \<longrightarrow>
            storedComments (submitAll rqs r) pid
              = drop (length (storedComments r pid) + length rqs - 20)
                  (storedComments r pid @ map (\<lambda>rq. commentJson (commentOf rq)) rqs))
       \<and> (length rqs = 21 \<longrightarrow>
            storedComments (submitAll rqs r) pid
              = map (\<lambda>rq. commentJson (commentOf rq)) (tl rqs)
            \<and> length (storedComments (submitAll rqs r) pid) = 20)"
proof (intro conjI ballI allI impI)
  fix rq r' assume "rq \<in> set rqs"
  with assms have ok: "succeeds pid rq" "trimmedMessage rq \<noteq> []" by auto
  show "docs (snd (snakeScore rq r')) (snd (snakeKeysForPost pid))
              = Some (Some (JArr (drop (length (storedComments r' pid) + 1 - 20)
                                    (storedComments r' pid @ [commentJson (commentOf rq)]))))"
    using snakeScore_comment(1) [OF ok, of r'] by (simp add: lastN_def)
  show "length (storedComments (snd (snakeScore rq r')) pid) \<le> 20"
    by (simp add: snakeScore_storedComments [OF ok] length_lastN)
next
  assume "rqs \<noteq> []"
  with assms show "storedComments (submitAll rqs r) pid
              = drop (length (storedComments r pid) + length rqs - 20)
                  (storedComments r pid @ map (\<lambda>rq. commentJson (commentOf rq)) rqs)"
    by (simp add: submitAll_storedComments lastN_def)
next
  assume l: "length rqs = 21"
  then have ne: "rqs \<noteq> []" by auto
  have "storedComments (submitAll rqs r) pid
           = lastN 20 (storedComments r pid @ map (\<lambda>rq. commentJson (commentOf rq)) rqs)"
    using assms ne by (rule submitAll_storedComments)
  also have "\<dots> = drop 1 (map (\<lambda>rq. commentJson (commentOf rq)) rqs)"
    using l by (simp add: lastN_def)
  also have "\<dots> = map (\<lambda>rq. commentJson (commentOf rq)) (tl rqs)"
    by (simp add: drop_Suc map_tl)
  finally show 1: "storedComments (submitAll rqs r) pid
              = map (\<lambda>rq. commentJson (commentOf rq)) (tl rqs)" .
  show "length (storedComments (submitAll rqs r) pid) = 20"
    unfolding 1 using l by simp
qed

theorem comment_log_append_capped_witness:
  "list_all (\<lambda>rq. succeeds ''t3_abc'' rq \<and> trimmedMessage rq \<noteq> []) chatRequests
   \<and> length chatRequests = 21
   \<and> storedComments (submitAll chatRequests testStore) ''t3_abc''
       = map (\<lambda>rq. commentJson (commentOf rq)) (tl chatRequests)
   \<and> length (storedComments (submitAll chatRequests testStore) ''t3_abc'') = 20"
proof -
  have t: "trim '' gg '' = ''gg''" by (simp add: trim_def isWhiteSpace_def)
  have h: "\<forall>rq \<in> set chatRequests. succeeds ''t3_abc'' rq \<and> trimmedMessage rq \<noteq> []"
    by (auto simp: chatRequests_def succeeds_def testRequest_def trimmedMessage_def t)
  have l: "length chatRequests = 21" by (simp add: chatRequests_def)
  from comment_log_append_capped [OF h, of testStore] h l show ?thesis
    by (simp add: list_all_iff)
qed

subsection \<open>The high score\<close>

lemma of_char_digitChar: "d < 10 \<Longrightarrow> (of_char (digitChar d) :: nat) = 48 + d"
  by (simp add: digitChar_def)

lemma radixDigit_digitChar: "d < 10 \<Longrightarrow> radixDigit 10 (digitChar d) = Some d"
  by (simp add: radixDigit_def digitValue_def of_char_digitChar Let_def)

lemma digitChar_plain:
  assumes "d < 10"
  shows "\<not> isWhiteSpace (digitChar d)" and "digitChar d \<noteq> CHR ''-''" and "digitChar d \<noteq> CHR ''+''"
    and "digitChar d \<noteq> CHR ''x''" and "digitChar d \<noteq> CHR ''X''"
proof -
  have k: "(of_char (digitChar d) :: nat) = 48 + d" using assms by (rule of_char_digitChar)
  show "\<not> isWhiteSpace (digitChar d)" using assms by (auto simp: isWhiteSpace_def k)
  have "(of_char (digitChar d) :: nat) \<noteq> of_char (CHR ''-'')" 
       "(of_char (digitChar d) :: nat) \<noteq> of_char (CHR ''+'')"
       "(of_char (digitChar d) :: nat) \<noteq> of_char (CHR ''x'')"
       "(of_char (digitChar d) :: nat) \<noteq> of_char (CHR ''X'')"
    using assms unfolding k by simp_all
  then show "digitChar d \<noteq> CHR ''-''" and "digitChar d \<noteq> CHR ''+''"
    and "digitChar d \<noteq> CHR ''x''" and "digitChar d \<noteq> CHR ''X''"
    by auto
qed

lemma decimal_digits: "0 \<le> n \<Longrightarrow> decimal n \<noteq> [] \<and> (\<forall>c \<in> set (decimal n). isDigit c)"
proof (induction n rule: decimal.induct)
  case (1 n)
  show ?case
  proof (cases "n < 10")
    case True
    with "1.prems" have "nat n < 10" by simp
    then have "isDigit (digitChar (nat n))" unfolding isDigit_def by blast
    with True show ?thesis by (simp add: decimal.simps [of n])
  next
    case False
    with "1.prems" have "0 \<le> n div 10" by simp
    with False "1.IH" have ih: "\<forall>c \<in> set (decimal (n div 10)). isDigit c" by simp
    have "nat (n mod 10) < 10" using "1.prems" by simp
    then have "isDigit (digitChar (nat (n mod 10)))" unfolding isDigit_def by blast
    with ih False show ?thesis by (simp add: decimal.simps [of n])
  qed
qed

lemma radixValue_snoc:
  "radixValue R (z @ [c])
     = radixValue R z * int R + (case radixDigit R c of Some d \<Rightarrow> int d | None \<Rightarrow> 0)"
  by (simp add: radixValue_def)

lemma radixValue_decimal: "0 \<le> n \<Longrightarrow> radixValue 10 (decimal n) = n"
proof (induction n rule: decimal.induct)
  case (1 n)
  show ?case
  proof (cases "n < 10")
    case True
    with "1.prems" have "nat n < 10" by simp
    then have "radixDigit 10 (digitChar (nat n)) = Some (nat n)" by (rule radixDigit_digitChar)
    with True "1.prems" show ?thesis by (simp add: decimal.simps [of n] radixValue_def)
  next
    case False
    with "1.prems" have "0 \<le> n div 10" by simp
    with False "1.IH" have ih: "radixValue 10 (decimal (n div 10)) = n div 10" by simp
    have "nat (n mod 10) < 10" using "1.prems" by simp
    then have "radixDigit 10 (digitChar (nat (n mod 10))) = Some (nat (n mod 10))"
      by (rule radixDigit_digitChar)
    with False ih show ?thesis
      by (simp add: decimal.simps [of n] radixValue_snoc)
  qed
qed

lemma parseInt_digits:
  assumes "z \<noteq> []" and "\<forall>c \<in> set z. isDigit c"
  shows "parseInt z = Fin (radixValue 10 z)"
proof -
  from assms(1) obtain c cs where z: "z = c # cs" by (cases z) auto
  with assms(2) obtain d where d: "d < 10" "c = digitChar d" by (auto simp: isDigit_def)
  have all: "\<forall>c \<in> set z. radixDigit 10 c \<noteq> None"
    using assms(2) by (auto simp: isDigit_def radixDigit_digitChar)
  have ws: "dropWhile isWhiteSpace z = z"
    using digitChar_plain(1) [OF d(1)] by (simp add: z d(2))
  have nx: "take 2 z \<noteq> ''0x''" "take 2 z \<noteq> ''0X''"
  proof -
    show "take 2 z \<noteq> ''0x''"
    proof (cases cs)
      case Nil
      then show ?thesis by (simp add: z)
    next
      case (Cons c' cs')
      with assms(2) z obtain d' where "d' < 10" "c' = digitChar d'" by (auto simp: isDigit_def)
      with digitChar_plain(4) [of d'] Cons show ?thesis by (simp add: z)
    qed
    show "take 2 z \<noteq> ''0X''"
    proof (cases cs)
      case Nil
      then show ?thesis by (simp add: z)
    next
      case (Cons c' cs')
      with assms(2) z obtain d' where "d' < 10" "c' = digitChar d'" by (auto simp: isDigit_def)
      with digitChar_plain(5) [of d'] Cons show ?thesis by (simp add: z)
    qed
  qed
  have tw: "takeWhile (\<lambda>c. radixDigit 10 c \<noteq> None) z = z"
    using all by (simp add: takeWhile_eq_all_conv)
  have sg: "(case z of [] \<Rightarrow> (1::int, z)
             | c # cs \<Rightarrow> if c = CHR ''-'' then (- 1, cs)
                        else if c = CHR ''+'' then (1, cs) else (1, z)) = (1, z)"
    using digitChar_plain(2,3) [OF d(1)] by (simp add: z d(2))
  have rx: "(if take 2 z = ''0x'' \<or> take 2 z = ''0X'' then (16::nat, drop 2 z) else (10, z))
            = (10, z)"
    using nx by simp
  show ?thesis
    unfolding parseInt_def Let_def ws sg prod.case rx tw using assms(1) by simp
qed

lemma parseInt_numToString:
  assumes "0 \<le> n" and "n < 10 ^ 21"
  shows "parseInt (numToString (Fin n)) = Fin n" and "numToString (Fin n) \<noteq> []"
proof -
  from assms have s: "numToString (Fin n) = decimal n"
    by (simp add: magnitudeToString_def Let_def)
  from decimal_digits [OF assms(1)] show "numToString (Fin n) \<noteq> []" unfolding s by simp
  from decimal_digits [OF assms(1)] have "parseInt (decimal n) = Fin (radixValue 10 (decimal n))"
    by (intro parseInt_digits) auto
  then show "parseInt (numToString (Fin n)) = Fin n"
    unfolding s by (simp add: radixValue_decimal [OF assms(1)])
qed

lemma saveScore_high_score:
  assumes "snakeKeysForPost pid = (sk, ck)"
    and "fault rq (Get sk) = None" and "fault rq (Get ck) = None"
    and "fault rq (Set sk) = None" and "fault rq (Set ck) = None"
    and "currentUsername rq = Inr u"
  shows "\<exists>c. fst (saveScore rq r pid b sc)
           = Response 200 (SnakeScoreResponse pid
               (if js_greater sc (readHighScore (texts r sk)) then sc
                else readHighScore (texts r sk))
               (js_greater sc (readHighScore (texts r sk))) c)"
    and "texts (snd (saveScore rq r pid b sc))
           = (if js_greater sc (readHighScore (texts r sk))
              then (texts r)(sk \<mapsto> numToString sc) else texts r)"
    and "\<not> js_greater sc (readHighScore (texts r sk))
           \<Longrightarrow> Set sk \<notin> set (performed r (snd (saveScore rq r pid b sc)))"
proof -
  note defs = saveScore_def assms performed_def Let_def redis_get_def redis_get_json_def
    redis_set_def redis_set_json_def
  from keys_distinct [of pid] assms(1) have ne: "sk \<noteq> ck" by simp
  show "\<exists>c. fst (saveScore rq r pid b sc)
           = Response 200 (SnakeScoreResponse pid
               (if js_greater sc (readHighScore (texts r sk)) then sc
                else readHighScore (texts r sk))
               (js_greater sc (readHighScore (texts r sk))) c)"
    by (simp add: defs)
  show "texts (snd (saveScore rq r pid b sc))
           = (if js_greater sc (readHighScore (texts r sk))
              then (texts r)(sk \<mapsto> numToString sc) else texts r)"
    by (simp add: defs)
  show "Set sk \<notin> set (performed r (snd (saveScore rq r pid b sc)))"
    if "\<not> js_greater sc (readHighScore (texts r sk))"
    using that ne by (simp add: defs)
qed

lemma submit_score_below_1e21:
  assumes "succeeds pid rq"
    and "json_body rq = Inr (Some b)"
    and "body_score b = Inr (Fin s)"
    and "s < 10 ^ 21"
    and "storedHighScore r pid = Fin h"
  shows "\<exists>c. fst (snakeScore rq r)
           = Response 200 (SnakeScoreResponse pid (Fin (if h < s then s else h)) (h < s) c)"
    and "storedHighScore (snd (snakeScore rq r)) pid = Fin (if h < s then s else h)"
    and "s \<le> h \<Longrightarrow> texts (snd (snakeScore rq r)) = texts r
           \<and> Set (fst (snakeKeysForPost pid)) \<notin> set (performed r (snd (snakeScore rq r)))"
proof -
  obtain sk ck where keys: "snakeKeysForPost pid = (sk, ck)"
    by (cases "snakeKeysForPost pid") auto
  from assms(1,2,3) obtain u where u: "currentUsername rq = Inr u"
    and v: "isFinite (Fin s)" "\<not> js_less (Fin s) (Fin 0)"
    and p: "postId rq = Some pid" "pid \<noteq> []"
    and f: "fault rq (Get sk) = None" "fault rq (Get ck) = None"
           "fault rq (Set sk) = None" "fault rq (Set ck) = None"
    by (auto simp: succeeds_def keys split: sum.splits)
  from v(2) have s0: "0 \<le> s" by simp
  from p have nf: "\<not> falsy (postId rq)" by (simp add: falsy_def)
  have eq: "snakeScore rq r = saveScore rq r pid b (Fin s)"
    using snakeScore_accepted [OF nf assms(2,3) v] p by simp
  from assms(5) have h: "readHighScore (texts r sk) = Fin h"
    by (simp add: storedHighScore_def keys)
  have g: "js_greater (Fin s) (Fin h) \<longleftrightarrow> h < s" by (simp add: js_greater_def)
  note hs = saveScore_high_score [OF keys f u, where r = r and b = b and sc = "Fin s", unfolded h g]
  from hs(1) show "\<exists>c. fst (snakeScore rq r)
           = Response 200 (SnakeScoreResponse pid (Fin (if h < s then s else h)) (h < s) c)"
    unfolding eq by (cases "h < s") simp_all
  show "storedHighScore (snd (snakeScore rq r)) pid = Fin (if h < s then s else h)"
  proof (cases "h < s")
    case True
    with hs(2) have "texts (snd (snakeScore rq r)) sk = Some (numToString (Fin s))"
      unfolding eq by simp
    with parseInt_numToString [OF s0 assms(4)] True show ?thesis
      by (simp add: storedHighScore_def keys readHighScore_def del: numToString.simps)
  next
    case False
    with hs(2) have "texts (snd (snakeScore rq r)) = texts r" unfolding eq by simp
    with False h show ?thesis by (simp add: storedHighScore_def keys)
  qed
  show "texts (snd (snakeScore rq r)) = texts r
           \<and> Set (fst (snakeKeysForPost pid)) \<notin> set (performed r (snd (snakeScore rq r)))"
    if "s \<le> h"
    using that hs(2) hs(3) unfolding eq by (simp add: keys)
qed

text \<open>
  Claim C1 at the score \<open>10\<^sup>2\<^sup>1\<close>, with the high score 5 in the store. The answer has
  \<open>newBest = true\<close> and \<open>highScore = 10\<^sup>2\<^sup>1\<close>, and the slot is written with the text \<^verbatim>\<open>1e+21\<close>
  that \<^verbatim>\<open>String\<close> gives; \<^verbatim>\<open>parseInt\<close> reads that text as 1, so the stored high score is now 1,
  not the high score that was returned. The next request, with score 3, is a new best and
  the slot goes down to 3. (For scores below \<open>10\<^sup>2\<^sup>1\<close> the claim holds:
  \<open>submit_score_below_1e21\<close>.)
\<close>

theorem huge_score_lowers_high_score:
  "storedHighScore (highStore ''5'') ''t3_abc'' = Fin 5
   \<and> fst (snakeScore (testRequest (Fin (10 ^ 21)) None) (highStore ''5''))
       = Response 200 (SnakeScoreResponse ''t3_abc'' (Fin (10 ^ 21)) True None)
   \<and> texts (snd (snakeScore (testRequest (Fin (10 ^ 21)) None) (highStore ''5'')))
         ''snake:t3_abc:highscore'' = Some ''1e+21''
   \<and> storedHighScore (snd (snakeScore (testRequest (Fin (10 ^ 21)) None) (highStore ''5'')))
         ''t3_abc'' = Fin 1
   \<and> fst (snakeScore (testRequest (Fin 3) None)
            (snd (snakeScore (testRequest (Fin (10 ^ 21)) None) (highStore ''5''))))
       = Response 200 (SnakeScoreResponse ''t3_abc'' (Fin 3) True None)
   \<and> storedHighScore
         (snd (snakeScore (testRequest (Fin 3) None)
            (snd (snakeScore (testRequest (Fin (10 ^ 21)) None) (highStore ''5'')))))
         ''t3_abc'' = Fin 3"
  by code_simp

theorem huge_score_lowers_high_score_witness:
  "js_less
     (storedHighScore
        (snd (snakeScore (testRequest (Fin 3) None)
           (snd (snakeScore (testRequest (Fin (10 ^ 21)) None) (highStore ''5'')))))
        ''t3_abc'')
     (storedHighScore (highStore ''5'') ''t3_abc'')"
  using huge_score_lowers_high_score by simp

end
